theory Spec2Isabelle
  imports Complex_Main "HOL-Library.Multiset" "HOL-Library.Monad_Syntax"
begin

section \<open>JavaScript strings and regular-expression primitives\<close>

text \<open>
  A JavaScript string is a sequence of UTF-16 code units; a code unit is modelled by its
  numeric value.  \<open>str\<close> embeds an ASCII literal.
\<close>

type_synonym jsstring = "nat list"

definition str :: "string \<Rightarrow> jsstring" where
  "str s = map of_char s"

definition isDigit :: "nat \<Rightarrow> bool" where
  \<comment> \<open>the class \<open>\d\<close>\<close>
  "isDigit c = (48 \<le> c \<and> c \<le> 57)"

definition isWordChar :: "nat \<Rightarrow> bool" where
  \<comment> \<open>the class \<open>\w\<close> of a regular expression without the u flag\<close>
  "isWordChar c = (isDigit c \<or> (65 \<le> c \<and> c \<le> 90) \<or> (97 \<le> c \<and> c \<le> 122) \<or> c = 95)"

definition isSpace :: "nat \<Rightarrow> bool" where
  \<comment> \<open>the class \<open>\s\<close>, also what \<open>trim\<close> removes: WhiteSpace and LineTerminator\<close>
  "isSpace c = (c \<in> set [9, 10, 11, 12, 13, 32, 160, 5760, 8232, 8233, 8239, 8287, 12288, 65279]
                \<or> (8192 \<le> c \<and> c \<le> 8202))"

definition canon :: "nat \<Rightarrow> nat" where
  \<comment> \<open>Canonicalize of the i flag (no u flag): a code unit is compared by its upper case, and
      a code unit from 128 on never canonicalizes to an ASCII one, so against the ASCII
      letters of the patterns below only the two cases of that letter compare equal.\<close>
  "canon c = (if 97 \<le> c \<and> c \<le> 122 then c - 32 else c)"

definition toLowerCase :: "jsstring \<Rightarrow> jsstring" where
  \<comment> \<open>\<open>toLowerCase\<close>, on the ASCII strings the month pattern matches\<close>
  "toLowerCase s = map (\<lambda>c. if 65 \<le> c \<and> c \<le> 90 then c + 32 else c) s"

definition trim :: "jsstring \<Rightarrow> jsstring" where
  "trim s = rev (dropWhile isSpace (rev (dropWhile isSpace s)))"

text \<open>
  A backtracking matcher is a function from the input left at a position to the list of
  inputs left after each way of matching there, in the order in which the engine tries
  them (greedy first); the match taken is the head of the list.
\<close>

fun lit :: "jsstring \<Rightarrow> jsstring \<Rightarrow> jsstring list" where
  "lit [] s = [s]"
| "lit (p # ps) [] = []"
| "lit (p # ps) (c # cs) = (if c = p then lit ps cs else [])"

fun litCI :: "jsstring \<Rightarrow> jsstring \<Rightarrow> jsstring list" where
  "litCI [] s = [s]"
| "litCI (p # ps) [] = []"
| "litCI (p # ps) (c # cs) = (if canon c = canon p then litCI ps cs else [])"

fun oneC :: "(nat \<Rightarrow> bool) \<Rightarrow> jsstring \<Rightarrow> jsstring list" where
  "oneC P [] = []"
| "oneC P (c # cs) = (if P c then [cs] else [])"

fun starC :: "(nat \<Rightarrow> bool) \<Rightarrow> jsstring \<Rightarrow> jsstring list" where
  \<comment> \<open>\<open>C*\<close> for a character class: the longest run first, then each shorter one\<close>
  "starC P [] = [[]]"
| "starC P (c # cs) = (if P c then starC P cs else []) @ [c # cs]"

definition plusC :: "(nat \<Rightarrow> bool) \<Rightarrow> jsstring \<Rightarrow> jsstring list" where
  "plusC P s = concat (map (starC P) (oneC P s))"

definition rep12 :: "(nat \<Rightarrow> bool) \<Rightarrow> jsstring \<Rightarrow> jsstring list" where
  \<comment> \<open>\<open>C{1,2}\<close>: two of the class first, then one\<close>
  "rep12 P s = concat (map (\<lambda>r. oneC P r @ [r]) (oneC P s))"

definition rep2 :: "(nat \<Rightarrow> bool) \<Rightarrow> jsstring \<Rightarrow> jsstring list" where
  \<comment> \<open>\<open>C{2}\<close>\<close>
  "rep2 P s = concat (map (oneC P) (oneC P s))"

definition boundary :: "nat option \<Rightarrow> jsstring \<Rightarrow> bool" where
  \<comment> \<open>\<open>\b\<close> between the code unit before the position (none at the start) and the input left\<close>
  "boundary prev s =
     ((case prev of None \<Rightarrow> False | Some p \<Rightarrow> isWordChar p)
      \<noteq> (case s of [] \<Rightarrow> False | c # _ \<Rightarrow> isWordChar c))"

text \<open>
  The loop of a global regular expression (\<open>String.prototype.match\<close> with the g flag, or
  repeated \<open>exec\<close>): try the pattern at each index from the left; after a match go on at
  its end.  \<open>skip\<close> counts the code units of the last match still to be passed over,
  \<open>i\<close> is the index and \<open>prev\<close> the code unit before it.  Each match is returned as its
  index, its text and its captures.
\<close>

fun execAll :: "(nat option \<Rightarrow> jsstring \<Rightarrow> ('a \<times> jsstring) list) \<Rightarrow> nat \<Rightarrow> nat \<Rightarrow> nat option
    \<Rightarrow> jsstring \<Rightarrow> (nat \<times> jsstring \<times> 'a) list" where
  "execAll m skip i prev [] = []"
| "execAll m skip i prev (c # cs) =
     (if 0 < skip then execAll m (skip - 1) (i + 1) (Some c) cs
      else case m prev (c # cs) of
             [] \<Rightarrow> execAll m 0 (i + 1) (Some c) cs
           | (v, r) # _ \<Rightarrow>
               (i, take (length (c # cs) - length r) (c # cs), v)
                 # execAll m (length (c # cs) - length r - 1) (i + 1) (Some c) cs)"

definition matchAll :: "(nat option \<Rightarrow> jsstring \<Rightarrow> ('a \<times> jsstring) list) \<Rightarrow> jsstring \<Rightarrow> jsstring list" where
  \<comment> \<open>\<open>s.match(re)\<close> with the g flag: the matched texts (\<open>|| []\<close> when there is none)\<close>
  "matchAll m s = map (\<lambda>(i, t, v). t) (execAll m 0 0 None s)"

fun digitsValue :: "nat \<Rightarrow> jsstring \<Rightarrow> nat" where
  "digitsValue acc [] = acc"
| "digitsValue acc (c # cs) = digitsValue (10 * acc + (c - 48)) cs"

definition parseInt :: "jsstring \<Rightarrow> int option" where
  \<comment> \<open>\<open>parseInt\<close> in radix 10 (no input here starts with 0x): white space is skipped, then
      an optional sign, then the longest run of digits; \<open>None\<close> is NaN\<close>
  "parseInt s =
     (let t = dropWhile isSpace s;
          neg = (t \<noteq> [] \<and> hd t = 45);
          u = (if t \<noteq> [] \<and> (hd t = 45 \<or> hd t = 43) then tl t else t);
          ds = takeWhile isDigit u
      in if ds = [] then None
         else Some (if neg then - int (digitsValue 0 ds) else int (digitsValue 0 ds)))"

section \<open>Dates\<close>

text \<open>
  A \<open>Date\<close> is modelled by its time value on the local civil time line: milliseconds since
  1 January 1970, 00:00 local time.  The calendar functions are those of ECMAScript
  (DayFromYear, InLeapYear, MakeDay, WeekDay); the offset of the local zone to UTC is not
  part of the model, so a day has 24 hours throughout.  (The code up to the database reads
  and sets local fields only.  \<open>pstToUtcIso\<close> works on the time value in UTC; the zone is
  added to the model there.)
\<close>

type_synonym date = int

definition msPerDay :: int where "msPerDay = 86400000"
definition msPerHour :: int where "msPerHour = 3600000"
definition msPerMinute :: int where "msPerMinute = 60000"

definition DayFromYear :: "int \<Rightarrow> int" where
  "DayFromYear y = 365 * (y - 1970) + (y - 1969) div 4 - (y - 1901) div 100 + (y - 1601) div 400"

definition InLeapYear :: "int \<Rightarrow> bool" where
  "InLeapYear y = (y mod 4 = 0 \<and> (y mod 100 \<noteq> 0 \<or> y mod 400 = 0))"

definition monthStart :: "int \<Rightarrow> nat \<Rightarrow> int" where
  \<comment> \<open>the day within year \<open>y\<close> of the first day of month \<open>m\<close> (0 is January)\<close>
  "monthStart y m =
     (let l = (if InLeapYear y then 1 else 0)
      in if m < 2 then [0, 31] ! m
         else [59, 90, 120, 151, 181, 212, 243, 273, 304, 334] ! (m - 2) + l)"

definition MakeDay :: "int \<Rightarrow> int \<Rightarrow> int \<Rightarrow> int" where
  "MakeDay year month dt =
     (let ym = year + month div 12; mn = nat (month mod 12)
      in DayFromYear ym + monthStart ym mn + dt - 1)"

definition newDate :: "int \<Rightarrow> int \<Rightarrow> int \<Rightarrow> date" where
  \<comment> \<open>\<open>new Date(year, month, day)\<close>: local midnight; a day outside the month rolls over\<close>
  "newDate year month day = MakeDay year month day * msPerDay"

definition getDay :: "date \<Rightarrow> int" where
  \<comment> \<open>\<open>getDay()\<close>: 0 is Sunday\<close>
  "getDay t = (t div msPerDay + 4) mod 7"

section \<open>DateRangeResolver: parseDateRange\<close>

definition monthNames :: "jsstring list" where
  "monthNames = map str [''january'', ''february'', ''march'', ''april'', ''may'', ''june'',
     ''july'', ''august'', ''september'', ''october'', ''november'', ''december'']"

fun indexOf :: "'a list \<Rightarrow> 'a \<Rightarrow> nat \<Rightarrow> nat option" where
  "indexOf [] x i = None"
| "indexOf (y # ys) x i = (if x = y then Some i else indexOf ys x (i + 1))"

definition months :: "jsstring \<Rightarrow> int option" where
  \<comment> \<open>the table \<open>months\<close>; a key that is not in it reads as \<open>undefined\<close> (\<open>None\<close>)\<close>
  "months k = map_option int (indexOf monthNames k 0)"

definition monthPattern :: "nat option \<Rightarrow> jsstring \<Rightarrow> (unit \<times> jsstring) list" where
  \<comment> \<open>\<open>/\b(january|...|december)\b/gi\<close> at one position\<close>
  "monthPattern prev s =
     (if boundary prev s
      then concat (map (\<lambda>nm. concat (map (\<lambda>r.
              if boundary (Some (s ! (length nm - 1))) r then [((), r)] else []) (litCI nm s)))
            monthNames)
      else [])"

definition dayPattern :: "nat option \<Rightarrow> jsstring \<Rightarrow> (unit \<times> jsstring) list" where
  \<comment> \<open>\<open>/(\d{1,2})(?:st|nd|rd|th)?/g\<close> at one position\<close>
  "dayPattern prev s =
     concat (map (\<lambda>r. map (Pair ())
        (lit (str ''st'') r @ lit (str ''nd'') r @ lit (str ''rd'') r @ lit (str ''th'') r @ [r]))
       (rep12 isDigit s))"

definition stripPdf :: "jsstring \<Rightarrow> jsstring" where
  \<comment> \<open>\<open>filename.replace(/\.pdf$/i, "")\<close>\<close>
  "stripPdf s =
     (if 4 \<le> length s \<and> litCI (str ''.pdf'') (drop (length s - 4) s) \<noteq> []
      then take (length s - 4) s else s)"

definition cleanName :: "jsstring \<Rightarrow> jsstring" where
  \<comment> \<open>\<open>name.replace(/[-\<endash>]/g, "-").replace(/:/g, "").trim()\<close>; 8211 is the en dash\<close>
  "cleanName name =
     trim (filter (\<lambda>c. c \<noteq> 58) (map (\<lambda>c. if c = 45 \<or> c = 8211 then 45 else c) name))"

definition getYear :: "int \<Rightarrow> int" where
  "getYear month = (if month \<ge> 7 then 2025 else 2026)"

function walkDates :: "date \<Rightarrow> date \<Rightarrow> date list \<Rightarrow> date list" where
  "walkDates currentDate endDate dates =
     (if currentDate \<le> endDate \<and> length dates < 5
      then walkDates (currentDate + msPerDay) endDate
             (if getDay currentDate \<ge> 1 \<and> getDay currentDate \<le> 5
              then dates @ [currentDate] else dates)
      else dates)"
  by pat_completeness auto
termination
  by (relation "measure (\<lambda>(c, e, ds). nat (e - c + 1))") (auto simp: msPerDay_def)

definition parseDateRange :: "jsstring \<Rightarrow> date list \<times> jsstring list" where
  \<comment> \<open>the dates returned, and the warnings written by \<open>console.warn\<close>\<close>
  "parseDateRange filename =
     (let name = stripPdf filename;
          cn = cleanName name;
          monthMatches = matchAll monthPattern cn;
          dayMatches = matchAll dayPattern cn
      in if length monthMatches = 0 \<or> length dayMatches < 2
         then ([], [str ''Could not parse date range from: '' @ filename])
         else
           case (months (toLowerCase (monthMatches ! 0)),
                 (if length monthMatches > 1 then months (toLowerCase (monthMatches ! 1))
                  else months (toLowerCase (monthMatches ! 0))),
                 parseInt (dayMatches ! 0), parseInt (dayMatches ! 1)) of
             (Some startMonth, Some endMonth, Some startDay, Some endDay) \<Rightarrow>
               (walkDates (newDate (getYear startMonth) startMonth startDay)
                          (newDate (getYear endMonth) endMonth endDay) [], [])
           | _ \<Rightarrow> ([], []))"


section \<open>Time strings and schedule entries\<close>

record scheduleEntry =
  name :: jsstring
  startTime :: date
  endTime :: date

fun splitOn :: "nat \<Rightarrow> jsstring \<Rightarrow> jsstring list" where
  \<comment> \<open>\<open>s.split(sep)\<close> for a separator of one code unit\<close>
  "splitOn d [] = [[]]"
| "splitOn d (c # cs) =
     (if c = d then [] # splitOn d cs
      else (c # hd (splitOn d cs)) # tl (splitOn d cs))"

definition Number :: "jsstring \<Rightarrow> int" where
  \<comment> \<open>\<open>Number(s)\<close> on a string of decimal digits, the only pieces the patterns of the
      extractors let through; the empty string is 0.  Other numeric forms are not modelled.\<close>
  "Number s = int (digitsValue 0 s)"

definition setHours :: "date \<Rightarrow> int \<Rightarrow> int \<Rightarrow> date" where
  \<comment> \<open>\<open>d.setHours(h, m, 0, 0)\<close>: the local day of \<open>d\<close>, at h:m:00.000 (hours from 24 on
      run into the next day)\<close>
  "setHours d h m = (d div msPerDay) * msPerDay + h * msPerHour + m * msPerMinute"

definition parseTime :: "jsstring \<Rightarrow> date \<Rightarrow> date" where
  \<comment> \<open>\<open>parseTime\<close> of savePeriodsToDatabase.  The two numbers are the first two pieces of
      \<open>timeStr.split(":")\<close>; the time strings the patterns capture have exactly one colon.
      (A string with no colon has no second piece, which makes the \<open>Date\<close> invalid in
      JavaScript; it is outside the time strings and reads as minute 0 here.)\<close>
  "parseTime timeStr baseDate =
     (let ps = map Number (splitOn 58 timeStr);
          hours = hd ps;
          minutes = hd (tl ps @ [0]);
          adjustedHours = (if hours < 7 then hours + 12 else hours)
      in setHours baseDate adjustedHours minutes)"

fun showNat :: "nat \<Rightarrow> jsstring" where
  \<comment> \<open>the decimal digits of a number in a template string\<close>
  "showNat n = (if n < 10 then [48 + n] else showNat (n div 10) @ [48 + n mod 10])"

declare showNat.simps [simp del]

fun insort_by :: "('a \<Rightarrow> 'a \<Rightarrow> bool) \<Rightarrow> 'a \<Rightarrow> 'a list \<Rightarrow> 'a list" where
  "insort_by le x [] = [x]"
| "insort_by le x (y # ys) = (if le x y then x # y # ys else y # insort_by le x ys)"

definition sort_by :: "('a \<Rightarrow> 'a \<Rightarrow> bool) \<Rightarrow> 'a list \<Rightarrow> 'a list" where
  \<comment> \<open>\<open>Array.prototype.sort\<close> with a comparator, which is stable: \<open>le a b\<close> says that
      the comparator does not put \<open>b\<close> before \<open>a\<close> (its value at \<open>(a, b)\<close> is at most 0)\<close>
  "sort_by le xs = foldr (insort_by le) xs []"

section \<open>DuplicateResolver and ScheduleEntryAssembler, layout mode: savePeriodsToDatabase\<close>

text \<open>
  An element of \<open>allMatches\<close>.  The coordinates are finite numbers, of which only the
  order is used; the column index is -1 when the page has no weekday header.
\<close>

record rawMatch =
  periodNum :: nat
  startTime :: jsstring
  endTime :: jsstring
  x :: real
  y :: real
  columnIndex :: int

text \<open>
  The groups are the values of a \<open>Map\<close>, which keeps its keys in the order of their first
  insertion.  The key is the string \<open>columnIndex-periodNum\<close>; it is modelled by the pair of
  the two numbers, and \<open>keyFields\<close> is what \<open>key.split("-").map(Number)\<close> reads back from
  it: the two numbers themselves for a column from 0 on, but for a negative column (the
  \<open>-1\<close> of getColumnIndex, key \<open>"-1-3"\<close>) the first piece is empty and reads 0, and the
  second piece is the digits of the column.
\<close>

type_synonym groupKey = "int \<times> nat"

definition keyOf :: "rawMatch \<Rightarrow> groupKey" where
  "keyOf m = (rawMatch.columnIndex m, rawMatch.periodNum m)"

definition keyFields :: "groupKey \<Rightarrow> nat \<times> nat" where
  "keyFields k = (if fst k < 0 then (0, nat (- fst k)) else (nat (fst k), snd k))"

fun pushGroup :: "rawMatch \<Rightarrow> (groupKey \<times> rawMatch list) list \<Rightarrow> (groupKey \<times> rawMatch list) list" where
  "pushGroup m [] = [(keyOf m, [m])]"
| "pushGroup m ((k, ms) # gs) =
     (if k = keyOf m then (k, ms @ [m]) # gs else (k, ms) # pushGroup m gs)"

definition byDayAndPeriod :: "rawMatch list \<Rightarrow> (groupKey \<times> rawMatch list) list" where
  "byDayAndPeriod allMatches = foldl (\<lambda>gs m. pushGroup m gs) [] allMatches"

definition sortByY :: "rawMatch list \<Rightarrow> rawMatch list" where
  \<comment> \<open>\<open>periods.sort((a, b) => b.y - a.y)\<close>\<close>
  "sortByY periods = sort_by (\<lambda>a b. y b \<le> y a) periods"

definition selectPeriod :: "nat \<Rightarrow> rawMatch list \<Rightarrow> rawMatch" where
  \<comment> \<open>the duplicate rule, on the sorted group (a group is never empty)\<close>
  "selectPeriod pn periods =
     (if pn = 3 then periods ! 0
      else if pn = 4 \<and> length periods > 1 then periods ! 1
      else periods ! 0)"

definition groupEntry :: "date list \<Rightarrow> groupKey \<times> rawMatch list \<Rightarrow> scheduleEntry list" where
  \<comment> \<open>one turn of the loop over the groups: the entry pushed, if any\<close>
  "groupEntry dates g =
     (let (colIdx, pn) = keyFields (fst g)
      in if colIdx \<ge> length dates then []
         else
           let date = dates ! colIdx;
               selected = selectPeriod pn (sortByY (snd g))
           in if rawMatch.startTime selected = [] \<or> rawMatch.endTime selected = [] then []
              else [\<lparr> scheduleEntry.name = str ''Period '' @ showNat pn,
                      scheduleEntry.startTime = parseTime (rawMatch.startTime selected) date,
                      scheduleEntry.endTime = parseTime (rawMatch.endTime selected) date \<rparr>])"

definition assembleEntries :: "rawMatch list \<Rightarrow> date list \<Rightarrow> scheduleEntry list" where
  \<comment> \<open>\<open>entries\<close> after the loop over the groups, before it is sorted\<close>
  "assembleEntries allMatches dates = concat (map (groupEntry dates) (byDayAndPeriod allMatches))"

definition savePeriodsToDatabase :: "rawMatch list \<Rightarrow> date list \<Rightarrow> scheduleEntry list" where
  \<comment> \<open>the entries handed to \<open>db.insertMany\<close>, after
      \<open>entries.sort((a, b) => a.startTime.getTime() - b.startTime.getTime())\<close>\<close>
  "savePeriodsToDatabase allMatches dates =
     sort_by (\<lambda>a b. scheduleEntry.startTime a \<le> scheduleEntry.startTime b)
       (assembleEntries allMatches dates)"

definition processPDF :: "(date list \<Rightarrow> rawMatch list) \<Rightarrow> jsstring \<Rightarrow> scheduleEntry list" where
  \<comment> \<open>processPDF, over the result of the layout extraction (parsePeriodsFromText of the
      text items, here a parameter): the entries inserted\<close>
  "processPDF periodsOf fileName =
     (let dates = fst (parseDateRange fileName)
      in if length dates = 0 then [] else savePeriodsToDatabase (periodsOf dates) dates)"


section \<open>RawOccurrenceExtractor, stream mode: parsePeriodsFromText\<close>

record ParsedPeriod =
  name :: jsstring
  startTime :: jsstring
  endTime :: jsstring
  columnIndex :: nat

record periodMatch =
  periodNum :: nat
  startTime :: jsstring
  endTime :: jsstring
  index :: nat

definition dayNames :: "jsstring list" where
  "dayNames = map str [''Monday'', ''Tuesday'', ''Wednesday'', ''Thursday'', ''Friday'']"

definition isRosterChar :: "nat \<Rightarrow> bool" where
  \<comment> \<open>the class \<open>[\d,\-]\<close>\<close>
  "isRosterChar c = (isDigit c \<or> c = 44 \<or> c = 45)"

definition headerPattern :: "jsstring \<Rightarrow> nat option \<Rightarrow> jsstring \<Rightarrow> (jsstring \<times> jsstring) list" where
  \<comment> \<open>\<open>new RegExp(dayName + "\\s*\\n([\\d,\\-]+)", "i")\<close> at one position; the capture is
      the roster\<close>
  "headerPattern dayName prev s = do {
     r1 \<leftarrow> litCI dayName s;
     r2 \<leftarrow> starC isSpace r1;
     r3 \<leftarrow> lit [10] r2;
     r4 \<leftarrow> plusC isRosterChar r3;
     [(take (length r3 - length r4) r3, r4)]
   }"

definition matchFirst :: "(nat option \<Rightarrow> jsstring \<Rightarrow> ('a \<times> jsstring) list) \<Rightarrow> jsstring \<Rightarrow> 'a option" where
  \<comment> \<open>\<open>s.match(re)\<close> without the g flag: the captures of the leftmost match\<close>
  "matchFirst m s = (case execAll m 0 0 None s of [] \<Rightarrow> None | (i, t, v) # _ \<Rightarrow> Some v)"

definition periodSetOf :: "jsstring \<Rightarrow> int list" where
  \<comment> \<open>the members of \<open>periodSet\<close> for a roster; a NaN (\<open>parseInt\<close> of a piece without a
      leading number) is left out, as no period number that is looked up equals it\<close>
  "periodSetOf periodsStr =
     (if 45 \<in> set periodsStr \<and> 44 \<notin> set periodsStr
      then (let ps = map Number (splitOn 45 periodsStr) in [hd ps .. hd (tl ps)])
      else concat (map (\<lambda>p. case parseInt (trim p) of None \<Rightarrow> [] | Some n \<Rightarrow> [n])
                     (splitOn 44 periodsStr)))"

definition dayPeriods :: "jsstring \<Rightarrow> nat \<Rightarrow> int list option" where
  \<comment> \<open>the map \<open>dayPeriods\<close>: the roster of each weekday whose header is found\<close>
  "dayPeriods text dayIdx =
     (if dayIdx < length dayNames
      then map_option periodSetOf (matchFirst (headerPattern (dayNames ! dayIdx)) text)
      else None)"

definition periodDays :: "jsstring \<Rightarrow> nat \<Rightarrow> nat list" where
  \<comment> \<open>\<open>periodDays.get(p) || []\<close>: the map has the keys 1 to 6\<close>
  "periodDays text p =
     (if 1 \<le> p \<and> p \<le> 6
      then filter (\<lambda>d. case dayPeriods text d of None \<Rightarrow> False | Some ps \<Rightarrow> int p \<in> set ps) [0..<5]
      else [])"

definition isDash :: "nat \<Rightarrow> bool" where
  \<comment> \<open>the class of the hyphen and the en dash\<close>
  "isDash c = (c = 45 \<or> c = 8211)"

definition periodPattern :: "nat option \<Rightarrow> jsstring \<Rightarrow> ((jsstring \<times> jsstring \<times> jsstring) \<times> jsstring) list" where
  \<comment> \<open>\<open>/Period\s+(\d+)\s*[\n\s]*(\d{1,2}:\d{2})\s*[-\<endash>]\s*(\d{1,2}:\d{2})\s*\(\d+\)/g\<close>
      at one position, with its three captures\<close>
  "periodPattern prev s = do {
     r1 \<leftarrow> lit (str ''Period'') s;
     r2 \<leftarrow> plusC isSpace r1;
     r3 \<leftarrow> plusC isDigit r2;
     r4 \<leftarrow> starC isSpace r3;
     r5 \<leftarrow> starC (\<lambda>c. c = 10 \<or> isSpace c) r4;
     r6 \<leftarrow> rep12 isDigit r5;
     r7 \<leftarrow> lit [58] r6;
     r8 \<leftarrow> rep2 isDigit r7;
     r9 \<leftarrow> starC isSpace r8;
     r10 \<leftarrow> oneC isDash r9;
     r11 \<leftarrow> starC isSpace r10;
     r12 \<leftarrow> rep12 isDigit r11;
     r13 \<leftarrow> lit [58] r12;
     r14 \<leftarrow> rep2 isDigit r13;
     r15 \<leftarrow> starC isSpace r14;
     r16 \<leftarrow> lit [40] r15;
     r17 \<leftarrow> plusC isDigit r16;
     r18 \<leftarrow> lit [41] r17;
     [((take (length r2 - length r3) r2,
        take (length r5 - length r8) r5,
        take (length r11 - length r14) r11), r18)]
   }"

definition allMatchesOf :: "jsstring \<Rightarrow> periodMatch list" where
  \<comment> \<open>the loop of \<open>periodPattern.exec(text)\<close>\<close>
  "allMatchesOf text =
     map (\<lambda>(i, t, (c1, c2, c3)).
            \<lparr> periodMatch.periodNum = digitsValue 0 c1, periodMatch.startTime = c2,
              periodMatch.endTime = c3, periodMatch.index = i \<rparr>)
         (execAll periodPattern 0 0 None text)"

definition lastIndexOf :: "jsstring \<Rightarrow> jsstring \<Rightarrow> int" where
  \<comment> \<open>\<open>s.lastIndexOf(pat)\<close>: the last index at which \<open>pat\<close> starts, or -1\<close>
  "lastIndexOf s pat =
     (case filter (\<lambda>i. take (length pat) (drop i s) = pat) (rev [0..<length s + 1]) of
        [] \<Rightarrow> - 1
      | i # _ \<Rightarrow> int i)"

text \<open>
  The state of the loop over the matches: the cursor of each period (\<open>nextDayIndex\<close>) and
  the map \<open>result\<close>, whose key \<open>periodNum-dayIdx\<close> is modelled by the pair.  A \<open>Map\<close> keeps a
  key at the place of its first insertion when its value is replaced.
\<close>

record scanState =
  nextDayIndex :: "nat \<Rightarrow> nat option"
  result :: "((nat \<times> nat) \<times> ParsedPeriod) list"

definition initState :: scanState where
  "initState = \<lparr> nextDayIndex = (\<lambda>p. if 1 \<le> p \<and> p \<le> 6 then Some 0 else None), result = [] \<rparr>"

definition getOr0 :: "(nat \<Rightarrow> nat option) \<Rightarrow> nat \<Rightarrow> nat" where
  \<comment> \<open>\<open>nextDayIndex.get(p) || 0\<close>\<close>
  "getOr0 m p = (case m p of None \<Rightarrow> 0 | Some v \<Rightarrow> v)"

fun mapSet :: "'k \<Rightarrow> 'v \<Rightarrow> ('k \<times> 'v) list \<Rightarrow> ('k \<times> 'v) list" where
  "mapSet k v [] = [(k, v)]"
| "mapSet k v ((k', v') # kvs) = (if k' = k then (k, v) # kvs else (k', v') # mapSet k v kvs)"

definition isAfterLunch :: "jsstring \<Rightarrow> periodMatch \<Rightarrow> ParsedPeriod \<Rightarrow> jsstring \<Rightarrow> bool" where
  \<comment> \<open>\<open>isAfterALunch\<close> and \<open>isAfterBLunch\<close> when \<open>existing\<close> is there: the last marker
      before the match lies after the last \<open>Period n\nstart\<close> of the existing entry before
      the match (which is -1 when that text does not occur)\<close>
  "isAfterLunch text entry existing marker =
     (let textBefore = take (periodMatch.index entry) text
      in lastIndexOf textBefore marker
           > lastIndexOf textBefore
               (str ''Period '' @ showNat (periodMatch.periodNum entry) @ [10] @ ParsedPeriod.startTime existing))"

definition scanStep :: "jsstring \<Rightarrow> scanState \<Rightarrow> periodMatch \<Rightarrow> scanState" where
  \<comment> \<open>one turn of \<open>for (const entry of allMatches)\<close>\<close>
  "scanStep text st entry =
     (let pn = periodMatch.periodNum entry;
          daysForThisPeriod = periodDays text pn;
          dayIndexPtr = getOr0 (nextDayIndex st) pn;
          ndi = (if dayIndexPtr \<ge> length daysForThisPeriod
                 then (nextDayIndex st)(pn \<mapsto> 0) else nextDayIndex st);
          currentDayIndex = getOr0 ndi pn
      in if currentDayIndex \<ge> length daysForThisPeriod then st\<lparr> nextDayIndex := ndi \<rparr>
         else
           let assignedDay = daysForThisPeriod ! currentDayIndex;
               ndi' = ndi(pn \<mapsto> currentDayIndex + 1);
               key = (pn, assignedDay);
               new = \<lparr> ParsedPeriod.name = str ''Period '' @ showNat pn,
                       ParsedPeriod.startTime = periodMatch.startTime entry,
                       ParsedPeriod.endTime = periodMatch.endTime entry,
                       ParsedPeriod.columnIndex = assignedDay \<rparr>
           in case map_of (result st) key of
                None \<Rightarrow> \<lparr> nextDayIndex = ndi', result = mapSet key new (result st) \<rparr>
              | Some existing \<Rightarrow>
                  if pn = 3 \<and> isAfterLunch text entry existing (str ''B Lunch'')
                  then \<lparr> nextDayIndex = ndi', result = mapSet key new (result st) \<rparr>
                  else if pn = 4 \<and> isAfterLunch text entry existing (str ''A Lunch'')
                  then \<lparr> nextDayIndex = ndi', result = mapSet key new (result st) \<rparr>
                  else \<lparr> nextDayIndex = ndi', result = result st \<rparr>)"

definition periodLess :: "ParsedPeriod \<Rightarrow> ParsedPeriod \<Rightarrow> bool" where
  \<comment> \<open>the comparator of the last sort is at most 0: by column, then by the number in the name\<close>
  "periodLess a b =
     (if ParsedPeriod.columnIndex a \<noteq> ParsedPeriod.columnIndex b
      then ParsedPeriod.columnIndex a \<le> ParsedPeriod.columnIndex b
      else digitsValue 0 (takeWhile isDigit (drop 7 (ParsedPeriod.name a)))
             \<le> digitsValue 0 (takeWhile isDigit (drop 7 (ParsedPeriod.name b))))"

definition parsePeriodsFromText :: "jsstring \<Rightarrow> date list \<Rightarrow> ParsedPeriod list" where
  "parsePeriodsFromText text dates =
     sort_by periodLess (map snd (result (foldl (scanStep text) initState (allMatchesOf text))))"

definition entryOfPeriod :: "date list \<Rightarrow> ParsedPeriod \<Rightarrow> scheduleEntry list" where
  \<comment> \<open>one turn of the loop of testOnePDF over the periods: the entry pushed, if any\<close>
  "entryOfPeriod dates period =
     (if ParsedPeriod.columnIndex period \<ge> length dates then []
      else
        let date = dates ! ParsedPeriod.columnIndex period;
            s = map Number (splitOn 58 (ParsedPeriod.startTime period));
            e = map Number (splitOn 58 (ParsedPeriod.endTime period));
            startHour = hd s; startMin = hd (tl s @ [0]);
            endHour = hd e; endMin = hd (tl e @ [0])
        in [\<lparr> scheduleEntry.name = ParsedPeriod.name period,
               scheduleEntry.startTime =
                 setHours date (if startHour < 7 then startHour + 12 else startHour) startMin,
               scheduleEntry.endTime =
                 setHours date (if endHour < 7 then endHour + 12 else endHour) endMin \<rparr>])"

definition testOnePDF :: "jsstring \<Rightarrow> jsstring \<Rightarrow> scheduleEntry list" where
  \<comment> \<open>the entries testOnePDF inserts for a file name and the text of the file\<close>
  "testOnePDF fileName text =
     (let dates = fst (parseDateRange fileName)
      in if length dates = 0 then []
         else concat (map (entryOfPeriod dates) (parsePeriodsFromText text dates)))"


section \<open>ScheduleLunchDatabase: pstToUtcIso, insert, insertMany\<close>

text \<open>
  \<open>pstToUtcIso\<close> adds 8 hours to \<open>date.getTime()\<close>, the time value of its argument in
  UTC, and reads the new \<open>Date\<close> with the local getters.  In this section a \<open>Date\<close> is
  therefore an \<open>instant\<close>, milliseconds since 1 January 1970, 00:00 UTC, and the time zone of
  the host is a parameter: a \<open>zone\<close> gives, for an instant, the number of milliseconds by
  which local time is ahead of UTC at that instant (LocalTZA of ECMAScript, negative west of
  Greenwich, changing where daylight-saving time starts or ends).  \<open>LocalTime\<close> is the local
  civil time value of an instant, and a local getter of a \<open>Date\<close> is the calendar field of
  that value.
\<close>

type_synonym instant = int














datatype LunchType = A_LUNCH | B_LUNCH | NONE

record ScheduleLunchEntry =
  name :: jsstring
  startTime :: instant
  endTime :: instant
  lunch :: LunchType

record lunchRow =
  name :: jsstring
  startTime :: jsstring
  endTime :: jsstring
  lunch :: LunchType





section \<open>Order of first occurrence\<close>

fun firstKeys :: "'a list \<Rightarrow> 'a list" where
  \<comment> \<open>the distinct members of a list, in the order in which each occurs first: the order of
      the keys of a \<open>Map\<close> filled from the list\<close>
  "firstKeys [] = []"
| "firstKeys (k # ks) = k # filter (\<lambda>j. j \<noteq> k) (firstKeys ks)"

section \<open>An example text\<close>

abbreviation lunchText :: jsstring where
  \<comment> \<open>a Monday with two occurrences of period 3, the second one after a "B Lunch" line and
      an "A Lunch" line, in this order (10 is the line feed)\<close>
  "lunchText \<equiv> str ''Monday'' @ 10 # str ''1-6'' @ 10 # str ''Period 3'' @ 10
     # str ''11:00 - 11:50 (3)'' @ 10 # str ''B Lunch'' @ 10 # str ''A Lunch'' @ 10
     # str ''Period 3 12:00 - 12:50 (3)''"

declare walkDates.simps [simp del]

lemma walkDates_stop: "\<not> (c \<le> e \<and> length ds < 5) \<Longrightarrow> walkDates c e ds = ds"
  by (subst walkDates.simps) auto

lemma walkDates_step:
  "c \<le> e \<Longrightarrow> length ds < 5 \<Longrightarrow>
   walkDates c e ds
     = walkDates (c + msPerDay) e (if getDay c \<ge> 1 \<and> getDay c \<le> 5 then ds @ [c] else ds)"
  by (subst walkDates.simps) simp

lemma walkDates_inv:
  "sorted_wrt (<) ds \<Longrightarrow> \<forall>d\<in>set ds. d < c \<Longrightarrow> \<forall>d\<in>set ds. 1 \<le> getDay d \<and> getDay d \<le> 5 \<Longrightarrow> length ds \<le> 5
   \<Longrightarrow> sorted_wrt (<) (walkDates c e ds)
       \<and> (\<forall>d\<in>set (walkDates c e ds). 1 \<le> getDay d \<and> getDay d \<le> 5)
       \<and> length (walkDates c e ds) \<le> 5"
proof (induct c e ds rule: walkDates.induct)
  case (1 c e ds)
  show ?case
  proof (cases "c \<le> e \<and> length ds < 5")
    case False
    then have "walkDates c e ds = ds" by (rule walkDates_stop)
    with 1(2-) show ?thesis by simp
  next
    case True
    let ?ds' = "if getDay c \<ge> 1 \<and> getDay c \<le> 5 then ds @ [c] else ds"
    have eq: "walkDates c e ds = walkDates (c + msPerDay) e ?ds'"
      using True by (simp add: walkDates_step)
    have a: "sorted_wrt (<) ?ds'" using 1(2,3) by (auto simp: sorted_wrt_append)
    have b: "\<forall>d\<in>set ?ds'. d < c + msPerDay" using 1(3) by (auto simp: msPerDay_def)
    have c: "\<forall>d\<in>set ?ds'. 1 \<le> getDay d \<and> getDay d \<le> 5" using 1(4) by auto
    have d: "length ?ds' \<le> 5" using True by auto
    show ?thesis unfolding eq by (rule 1(1)[OF True a b c d])
  qed
qed

lemma walkDates_upto:
  "length ds \<le> 5 \<Longrightarrow>
   walkDates (s * msPerDay) (t * msPerDay) ds
     = take 5 (ds @ filter (\<lambda>d. 1 \<le> getDay d \<and> getDay d \<le> 5) (map (\<lambda>k. k * msPerDay) [s..t]))"
proof (induction "nat (t - s + 1)" arbitrary: s ds)
  case 0
  then have "t < s" by simp
  then have "walkDates (s * msPerDay) (t * msPerDay) ds = ds"
    by (intro walkDates_stop) (simp add: msPerDay_def)
  with 0 \<open>t < s\<close> show ?case by simp
next
  case (Suc n)
  then have st: "s \<le> t" by simp
  have up: "[s..t] = s # [s + 1..t]" using st by (simp add: upto_rec1)
  show ?case
  proof (cases "length ds < 5")
    case False
    with Suc(3) have l: "length ds = 5" by simp
    have "walkDates (s * msPerDay) (t * msPerDay) ds = ds"
      using l by (intro walkDates_stop) simp
    with l show ?thesis by simp
  next
    case True
    let ?ds' = "if getDay (s * msPerDay) \<ge> 1 \<and> getDay (s * msPerDay) \<le> 5 then ds @ [s * msPerDay] else ds"
    have "s * msPerDay \<le> t * msPerDay" using st by (simp add: msPerDay_def)
    then have "walkDates (s * msPerDay) (t * msPerDay) ds = walkDates (s * msPerDay + msPerDay) (t * msPerDay) ?ds'"
      using True by (rule walkDates_step)
    moreover have "s * msPerDay + msPerDay = (s + 1) * msPerDay" by (simp add: algebra_simps)
    ultimately have eq: "walkDates (s * msPerDay) (t * msPerDay) ds = walkDates ((s + 1) * msPerDay) (t * msPerDay) ?ds'"
      by simp
    have n: "n = nat (t - (s + 1) + 1)" using Suc(2) by simp
    have l: "length ?ds' \<le> 5" using True by simp
    show ?thesis unfolding eq Suc(1)[OF n l] up using True by (auto simp: take_Cons')
  qed
qed

lemma parseDateRange_unparseable:
  "length (matchAll monthPattern (cleanName (stripPdf f))) = 0
     \<or> length (matchAll dayPattern (cleanName (stripPdf f))) < 2
   \<Longrightarrow> parseDateRange f = ([], [str ''Could not parse date range from: '' @ f])"
  unfolding parseDateRange_def Let_def by (rule if_P)

lemma parseDateRange_parse:
  assumes "\<not> (length (matchAll monthPattern (cleanName (stripPdf f))) = 0
     \<or> length (matchAll dayPattern (cleanName (stripPdf f))) < 2)"
  shows "parseDateRange f =
     (case (months (toLowerCase (matchAll monthPattern (cleanName (stripPdf f)) ! 0)),
           (if length (matchAll monthPattern (cleanName (stripPdf f))) > 1
            then months (toLowerCase (matchAll monthPattern (cleanName (stripPdf f)) ! 1))
            else months (toLowerCase (matchAll monthPattern (cleanName (stripPdf f)) ! 0))),
           parseInt (matchAll dayPattern (cleanName (stripPdf f)) ! 0),
           parseInt (matchAll dayPattern (cleanName (stripPdf f)) ! 1)) of
             (Some startMonth, Some endMonth, Some startDay, Some endDay) \<Rightarrow>
               (walkDates (newDate (getYear startMonth) startMonth startDay)
                          (newDate (getYear endMonth) endMonth endDay) [], [])
           | _ \<Rightarrow> ([], []))"
  unfolding parseDateRange_def Let_def using assms by (rule if_not_P)

lemma parseDateRange_shape:
  "fst (parseDateRange f) = [] \<or> (\<exists>c e. fst (parseDateRange f) = walkDates c e [])"
proof (cases "length (matchAll monthPattern (cleanName (stripPdf f))) = 0
     \<or> length (matchAll dayPattern (cleanName (stripPdf f))) < 2")
  case True
  then show ?thesis using parseDateRange_unparseable[of f] by simp
next
  case False
  define a where "a = months (toLowerCase (matchAll monthPattern (cleanName (stripPdf f)) ! 0))"
  define b where "b = (if length (matchAll monthPattern (cleanName (stripPdf f))) > 1
            then months (toLowerCase (matchAll monthPattern (cleanName (stripPdf f)) ! 1))
            else months (toLowerCase (matchAll monthPattern (cleanName (stripPdf f)) ! 0)))"
  define c where "c = parseInt (matchAll dayPattern (cleanName (stripPdf f)) ! 0)"
  define d where "d = parseInt (matchAll dayPattern (cleanName (stripPdf f)) ! 1)"
  have "parseDateRange f = (case (a, b, c, d) of
             (Some startMonth, Some endMonth, Some startDay, Some endDay) \<Rightarrow>
               (walkDates (newDate (getYear startMonth) startMonth startDay)
                          (newDate (getYear endMonth) endMonth endDay) [], [])
           | _ \<Rightarrow> ([], []))"
    unfolding a_def b_def c_def d_def using False by (rule parseDateRange_parse)
  then show ?thesis
    by (cases a; cases b; cases c; cases d) auto
qed

lemma parseDateRange_invariant:
  "sorted_wrt (<) (fst (parseDateRange f))
       \<and> (\<forall>d\<in>set (fst (parseDateRange f)). 1 \<le> getDay d \<and> getDay d \<le> 5)
       \<and> length (fst (parseDateRange f)) \<le> 5"
  using parseDateRange_shape[of f] walkDates_inv[of "[]"] by auto

lemma parseDateRange_eval:
  assumes "matchAll monthPattern (cleanName (stripPdf f)) = m1 # mm"
    and "matchAll dayPattern (cleanName (stripPdf f)) = d1 # d2 # dm"
    and "months (toLowerCase m1) = Some sm"
    and "months (toLowerCase (hd (mm @ [m1]))) = Some em"
    and "parseInt d1 = Some sd" and "parseInt d2 = Some ed"
  shows "parseDateRange f
           = (walkDates (newDate (getYear sm) sm sd) (newDate (getYear em) em ed) [], [])"
proof -
  have ne: "\<not> (length (matchAll monthPattern (cleanName (stripPdf f))) = 0
     \<or> length (matchAll dayPattern (cleanName (stripPdf f))) < 2)"
    using assms(1,2) by simp
  have em: "(if length (m1 # mm) > 1 then months (toLowerCase ((m1 # mm) ! 1))
             else months (toLowerCase ((m1 # mm) ! 0))) = Some em"
    using assms(4) by (cases mm) simp_all
  show ?thesis
    unfolding parseDateRange_parse[OF ne] assms(1,2) em
    using assms(3,5,6) by simp
qed

lemma walkDates_days:
  "walkDates (newDate yr m s) (newDate yr' m' t) []
     = take 5 (filter (\<lambda>d. 1 \<le> getDay d \<and> getDay d \<le> 5)
                (map (\<lambda>k. k * msPerDay) [MakeDay yr m s..MakeDay yr' m' t]))"
  unfolding newDate_def using walkDates_upto[of "[]"] by simp

lemmas str_eval = str_def canon_def isDigit_def isWordChar_def isSpace_def

lemma april_clean: "cleanName (stripPdf (str ''April 6th - 10th.pdf'')) = str ''April 6th - 10th''"
  by (simp add: stripPdf_def cleanName_def trim_def str_eval)

lemma april_months: "matchAll monthPattern (str ''April 6th - 10th'') = [str ''April'']"
  by (simp add: matchAll_def monthPattern_def boundary_def monthNames_def str_eval)

lemma april_days: "matchAll dayPattern (str ''April 6th - 10th'') = [str ''6th'', str ''10th'']"
  by (simp add: matchAll_def dayPattern_def rep12_def str_eval)

lemma april_index: "months (toLowerCase (str ''April'')) = Some 3"
  by (simp add: months_def toLowerCase_def monthNames_def str_eval)

lemma parseInt_6th: "parseInt (str ''6th'') = Some 6"
  by (simp add: parseInt_def str_eval)

lemma parseInt_10th: "parseInt (str ''10th'') = Some 10"
  by (simp add: parseInt_def str_eval)

lemma MakeDay_april: "MakeDay 2026 3 6 = 20549" "MakeDay 2026 3 10 = 20553"
  by (simp_all add: MakeDay_def DayFromYear_def monthStart_def InLeapYear_def)

lemma upto_april: "[20549..20553] = [20549, 20550, 20551, 20552, 20553::int]"
  by (simp add: upto_rec1)

lemma april_dates:
  "parseDateRange (str ''April 6th - 10th.pdf'')
     = ([20549 * msPerDay, 20550 * msPerDay, 20551 * msPerDay, 20552 * msPerDay, 20553 * msPerDay], [])"
proof -
  have "parseDateRange (str ''April 6th - 10th.pdf'')
      = (walkDates (newDate (getYear 3) 3 6) (newDate (getYear 3) 3 10) [], [])"
  proof (rule parseDateRange_eval)
    show "matchAll monthPattern (cleanName (stripPdf (str ''April 6th - 10th.pdf''))) = [str ''April'']"
      by (simp add: april_clean april_months)
    show "matchAll dayPattern (cleanName (stripPdf (str ''April 6th - 10th.pdf'')))
            = [str ''6th'', str ''10th'']"
      by (simp add: april_clean april_days)
    show "months (toLowerCase (hd ([] @ [str ''April'']))) = Some 3"
      by (simp add: april_index)
  qed (rule april_index parseInt_6th parseInt_10th)+
  also have "getYear 3 = 2026" by (simp add: getYear_def)
  finally show ?thesis
    unfolding walkDates_days MakeDay_april upto_april
    by (simp add: getDay_def msPerDay_def)
qed

text \<open>
  C7.  A document name in which the month pattern finds no month name, or the day pattern
  finds fewer than two day numbers, makes parseDateRange return no date and write one
  warning; processPDF and testOnePDF then insert no entry for the document.
\<close>

theorem unparseable_name_yields_nothing:
  assumes "length (matchAll monthPattern (cleanName (stripPdf f))) < 1
           \<or> length (matchAll dayPattern (cleanName (stripPdf f))) < 2"
  shows "parseDateRange f = ([], [str ''Could not parse date range from: '' @ f])
         \<and> processPDF periodsOf f = []
         \<and> testOnePDF f text = []"
proof -
  have "parseDateRange f = ([], [str ''Could not parse date range from: '' @ f])"
    using assms by (intro parseDateRange_unparseable) auto
  then show ?thesis by (simp add: processPDF_def testOnePDF_def)
qed

lemma may5_days: "matchAll dayPattern (cleanName (stripPdf (str ''May 5th.pdf''))) = [str ''5th'']"
  by (simp add: stripPdf_def cleanName_def trim_def matchAll_def dayPattern_def rep12_def str_eval)

theorem unparseable_name_yields_nothing_witness:
  "length (matchAll dayPattern (cleanName (stripPdf (str ''May 5th.pdf'')))) < 2
   \<and> parseDateRange (str ''May 5th.pdf'')
        = ([], [str ''Could not parse date range from: '' @ str ''May 5th.pdf''])
   \<and> processPDF (\<lambda>dates. []) (str ''May 5th.pdf'') = []
   \<and> testOnePDF (str ''May 5th.pdf'') [] = []"
proof -
  have h: "length (matchAll dayPattern (cleanName (stripPdf (str ''May 5th.pdf'')))) < 2"
    by (simp add: may5_days)
  then have "length (matchAll monthPattern (cleanName (stripPdf (str ''May 5th.pdf'')))) < 1
           \<or> length (matchAll dayPattern (cleanName (stripPdf (str ''May 5th.pdf'')))) < 2"
    by (rule disjI2)
  from unparseable_name_yields_nothing[OF this, of "\<lambda>dates. []" "[]"] h
  show ?thesis by blast
qed

text \<open>
  C8.  Whatever the file name, the dates parseDateRange returns are strictly increasing,
  each falls on a day from Monday (1) to Friday (5), and there are at most five of them.
\<close>

theorem ColumnDate_invariant:
  "sorted_wrt (<) (fst (parseDateRange f))
   \<and> (\<forall>d\<in>set (fst (parseDateRange f)). 1 \<le> getDay d \<and> getDay d \<le> 5)
   \<and> length (fst (parseDateRange f)) \<le> 5"
  by (rule parseDateRange_invariant)

theorem ColumnDate_invariant_witness:
  "fst (parseDateRange (str ''April 6th - 10th.pdf'')) \<noteq> []
   \<and> sorted_wrt (<) (fst (parseDateRange (str ''April 6th - 10th.pdf'')))
   \<and> list_all (\<lambda>d. 1 \<le> getDay d \<and> getDay d \<le> 5) (fst (parseDateRange (str ''April 6th - 10th.pdf'')))
   \<and> length (fst (parseDateRange (str ''April 6th - 10th.pdf''))) \<le> 5"
  using ColumnDate_invariant[of "str ''April 6th - 10th.pdf''"]
  by (simp add: april_dates list_all_iff)

lemma months_cases:
  "months nm = Some m \<Longrightarrow>
     (nm = str ''january'' \<and> m = 0) \<or> (nm = str ''february'' \<and> m = 1) \<or> (nm = str ''march'' \<and> m = 2)
   \<or> (nm = str ''april'' \<and> m = 3) \<or> (nm = str ''may'' \<and> m = 4) \<or> (nm = str ''june'' \<and> m = 5)
   \<or> (nm = str ''july'' \<and> m = 6) \<or> (nm = str ''august'' \<and> m = 7) \<or> (nm = str ''september'' \<and> m = 8)
   \<or> (nm = str ''october'' \<and> m = 9) \<or> (nm = str ''november'' \<and> m = 10) \<or> (nm = str ''december'' \<and> m = 11)"
  by (simp add: months_def monthNames_def split: if_splits)

lemma getYear_of_name:
  assumes "months nm = Some m"
  shows "getYear m = (if nm \<in> set (map str [''august'', ''september'', ''october'', ''november'', ''december''])
                      then 2025 else 2026)"
  using months_cases[OF assms]
  by (elim disjE conjE) (simp_all add: getYear_def str_def)

text \<open>
  C1, as stated, fails for July: the table gives July the index 6, \<open>getYear\<close> compares the
  index with 7, and so a July date is put in 2026.
\<close>

lemma july_clean: "cleanName (stripPdf (str ''July 6th - 10th.pdf'')) = str ''July 6th - 10th''"
  by (simp add: stripPdf_def cleanName_def trim_def str_eval)

lemma july_months: "matchAll monthPattern (str ''July 6th - 10th'') = [str ''July'']"
  by (simp add: matchAll_def monthPattern_def boundary_def monthNames_def str_eval)

lemma july_days: "matchAll dayPattern (str ''July 6th - 10th'') = [str ''6th'', str ''10th'']"
  by (simp add: matchAll_def dayPattern_def rep12_def str_eval)

lemma july_index: "months (toLowerCase (str ''July'')) = Some 6"
  by (simp add: months_def toLowerCase_def monthNames_def str_eval)

lemma july_parse:
  "parseDateRange (str ''July 6th - 10th.pdf'')
     = (walkDates (newDate (getYear 6) 6 6) (newDate (getYear 6) 6 10) [], [])"
proof (rule parseDateRange_eval)
  show "matchAll monthPattern (cleanName (stripPdf (str ''July 6th - 10th.pdf''))) = [str ''July'']"
    by (simp add: july_clean july_months)
  show "matchAll dayPattern (cleanName (stripPdf (str ''July 6th - 10th.pdf'')))
          = [str ''6th'', str ''10th'']"
    by (simp add: july_clean july_days)
  show "months (toLowerCase (hd ([] @ [str ''July'']))) = Some 6"
    by (simp add: july_index)
qed (rule july_index parseInt_6th parseInt_10th)+

lemma MakeDay_july: "MakeDay 2026 6 6 = 20640" "MakeDay 2026 6 10 = 20644"
  by (simp_all add: MakeDay_def DayFromYear_def monthStart_def InLeapYear_def)

lemma july_dates:
  "fst (parseDateRange (str ''July 6th - 10th.pdf''))
     = [newDate 2026 6 6, newDate 2026 6 7, newDate 2026 6 8, newDate 2026 6 9, newDate 2026 6 10]"
proof -
  have y: "getYear 6 = 2026" by (simp add: getYear_def)
  have u: "[20640..20644] = [20640, 20641, 20642, 20643, 20644::int]" by (simp add: upto_rec1)
  show ?thesis
    unfolding july_parse y walkDates_days MakeDay_july u
    by (simp add: getDay_def msPerDay_def newDate_def MakeDay_def DayFromYear_def monthStart_def
          InLeapYear_def)
qed

theorem july_maps_to_2026:
  "months (toLowerCase (str ''July'')) = Some 6 \<and> getYear 6 = 2026
   \<and> fst (parseDateRange (str ''July 6th - 10th.pdf''))
        = [newDate 2026 6 6, newDate 2026 6 7, newDate 2026 6 8, newDate 2026 6 9, newDate 2026 6 10]"
  by (simp add: july_index july_dates getYear_def)

lemma splitOn_none: "d \<notin> set s \<Longrightarrow> splitOn d s = [s]"
  by (induction s) auto

lemma splitOn_one: "d \<notin> set h \<Longrightarrow> d \<notin> set m \<Longrightarrow> splitOn d (h @ d # m) = [h, m]"
  by (induction h) (auto simp: splitOn_none)

lemma digit_not_colon: "list_all isDigit s \<Longrightarrow> 58 \<notin> set s"
  by (auto simp: list_all_iff isDigit_def)

lemma parseTime_digits:
  assumes "list_all isDigit h" and "list_all isDigit m"
  shows "parseTime (h @ 58 # m) D
           = setHours D (if Number h < 7 then Number h + 12 else Number h) (Number m)"
  using splitOn_one[OF digit_not_colon[OF assms(1)] digit_not_colon[OF assms(2)]]
  by (simp add: parseTime_def Let_def)

lemma entryOfPeriod_digits:
  assumes "list_all isDigit h1" and "list_all isDigit m1"
    and "list_all isDigit h2" and "list_all isDigit m2"
    and "ParsedPeriod.startTime p = h1 @ 58 # m1" and "ParsedPeriod.endTime p = h2 @ 58 # m2"
    and "ParsedPeriod.columnIndex p < length dates"
  shows "entryOfPeriod dates p
           = [\<lparr> scheduleEntry.name = ParsedPeriod.name p,
                scheduleEntry.startTime =
                  setHours (dates ! ParsedPeriod.columnIndex p)
                    (if Number h1 < 7 then Number h1 + 12 else Number h1) (Number m1),
                scheduleEntry.endTime =
                  setHours (dates ! ParsedPeriod.columnIndex p)
                    (if Number h2 < 7 then Number h2 + 12 else Number h2) (Number m2) \<rparr>]"
  using splitOn_one[OF digit_not_colon[OF assms(1)] digit_not_colon[OF assms(2)]]
        splitOn_one[OF digit_not_colon[OF assms(3)] digit_not_colon[OF assms(4)]] assms(5-)
  by (simp add: entryOfPeriod_def Let_def)

lemma parseTime_100: "parseTime (str ''1:00'') D = setHours D 13 0"
  by (simp add: parseTime_def Number_def str_def)

lemma parseTime_145: "parseTime (str ''1:45'') D = setHours D 13 45"
  by (simp add: parseTime_def Number_def str_def)

text \<open>
  C5.  A time string is hours, a colon and minutes, all digits.  Both assemblers
  (\<open>parseTime\<close> of savePeriodsToDatabase and the loop of testOnePDF) add 12 to an hour
  below 7 and leave an hour from 7 on as it is; the instant is that time of day on the day
  of the column date.  For a column date at midnight, "1:00" and "1:45" give 13:00 and 13:45
  on that day.
\<close>

theorem hours_before_7_are_pm:
  assumes "list_all isDigit h1" and "list_all isDigit m1"
    and "list_all isDigit h2" and "list_all isDigit m2"
    and "ParsedPeriod.startTime p = h1 @ 58 # m1" and "ParsedPeriod.endTime p = h2 @ 58 # m2"
    and "ParsedPeriod.columnIndex p < length dates"
  shows "parseTime (h1 @ 58 # m1) D
           = D div msPerDay * msPerDay
             + (if Number h1 < 7 then Number h1 + 12 else Number h1) * msPerHour
             + Number m1 * msPerMinute
       \<and> entryOfPeriod dates p
           = [\<lparr> scheduleEntry.name = ParsedPeriod.name p,
                scheduleEntry.startTime =
                  setHours (dates ! ParsedPeriod.columnIndex p)
                    (if Number h1 < 7 then Number h1 + 12 else Number h1) (Number m1),
                scheduleEntry.endTime =
                  setHours (dates ! ParsedPeriod.columnIndex p)
                    (if Number h2 < 7 then Number h2 + 12 else Number h2) (Number m2) \<rparr>]
       \<and> parseTime (str ''1:00'') (k * msPerDay) = k * msPerDay + 13 * msPerHour
       \<and> parseTime (str ''1:45'') (k * msPerDay) = k * msPerDay + 13 * msPerHour + 45 * msPerMinute"
  using parseTime_digits[OF assms(1,2), of D] entryOfPeriod_digits[OF assms]
  by (simp add: parseTime_100 parseTime_145 setHours_def msPerDay_def)

theorem hours_before_7_are_pm_witness:
  "parseTime (str ''11:40'') (newDate 2026 3 6) = newDate 2026 3 6 + 11 * msPerHour + 40 * msPerMinute
   \<and> parseTime (str ''1:45'') (newDate 2026 3 6) = newDate 2026 3 6 + 13 * msPerHour + 45 * msPerMinute
   \<and> entryOfPeriod [newDate 2026 3 6]
        \<lparr> ParsedPeriod.name = str ''Period 4'', ParsedPeriod.startTime = str ''11:40'',
          ParsedPeriod.endTime = str ''1:45'', ParsedPeriod.columnIndex = 0 \<rparr>
       = [\<lparr> scheduleEntry.name = str ''Period 4'',
            scheduleEntry.startTime = newDate 2026 3 6 + 11 * msPerHour + 40 * msPerMinute,
            scheduleEntry.endTime = newDate 2026 3 6 + 13 * msPerHour + 45 * msPerMinute \<rparr>]"
proof -
  let ?p = "\<lparr> ParsedPeriod.name = str ''Period 4'', ParsedPeriod.startTime = str ''11:40'',
          ParsedPeriod.endTime = str ''1:45'', ParsedPeriod.columnIndex = 0 \<rparr>"
  have d: "list_all isDigit (str ''11'')" "list_all isDigit (str ''40'')"
    "list_all isDigit (str ''1'')" "list_all isDigit (str ''45'')"
    by (simp_all add: str_def isDigit_def)
  have s: "ParsedPeriod.startTime ?p = str ''11'' @ 58 # str ''40''"
    "ParsedPeriod.endTime ?p = str ''1'' @ 58 # str ''45''" by (simp_all add: str_def)
  have c: "ParsedPeriod.columnIndex ?p < length [newDate 2026 3 6]" by simp
  have n: "Number (str ''11'') = 11" "Number (str ''40'') = 40" "Number (str ''1'') = 1"
    "Number (str ''45'') = 45"
    by (simp_all add: Number_def str_def)
  have e: "str ''11'' @ 58 # str ''40'' = str ''11:40''"
    by (simp add: str_def)
  have m: "newDate 2026 3 6 div msPerDay * msPerDay = newDate 2026 3 6"
    by (simp add: newDate_def msPerDay_def)
  have k: "newDate 2026 3 6 = MakeDay 2026 3 6 * msPerDay" by (simp add: newDate_def)
  from hours_before_7_are_pm[OF d s c, of "newDate 2026 3 6" "MakeDay 2026 3 6"]
  show ?thesis
    unfolding n e by (simp add: m k[symmetric] setHours_def)
qed

lemma mset_insort_by: "mset (insort_by le a xs) = add_mset a (mset xs)"
  by (induction xs) auto

lemma mset_sort_by: "mset (sort_by le xs) = mset xs"
  by (induction xs) (auto simp: sort_by_def mset_insort_by)

lemma set_insort_by: "set (insort_by le a xs) = insert a (set xs)"
  by (induction xs) auto

lemma sorted_insort_by:
  assumes tot: "\<And>a b. le a b \<or> le b a"
    and trans: "\<And>a b c. le a b \<Longrightarrow> le b c \<Longrightarrow> le a c"
  shows "sorted_wrt le xs \<Longrightarrow> sorted_wrt le (insort_by le a xs)"
proof (induction xs)
  case Nil
  then show ?case by simp
next
  case (Cons b xs)
  show ?case
  proof (cases "le a b")
    case True
    with Cons.prems trans show ?thesis by auto
  next
    case False
    with tot have "le b a" by blast
    with Cons False show ?thesis by (auto simp: set_insort_by)
  qed
qed

lemma sorted_sort_by:
  assumes "\<And>a b. le a b \<or> le b a" and "\<And>a b c. le a b \<Longrightarrow> le b c \<Longrightarrow> le a c"
  shows "sorted_wrt le (sort_by le xs)"
proof (induction xs)
  case Nil
  show ?case by (simp add: sort_by_def)
next
  case (Cons a xs)
  have "sort_by le (a # xs) = insort_by le a (sort_by le xs)" by (simp add: sort_by_def)
  with sorted_insort_by[of le, OF assms Cons] show ?case by simp
qed

lemma sortByY_sorted: "sorted_wrt (\<lambda>a b. y b \<le> y a) (sortByY g)"
  unfolding sortByY_def by (rule sorted_sort_by) auto

lemma sortByY_mset: "mset (sortByY g) = mset g"
  by (simp add: sortByY_def mset_sort_by)

lemma sortByY_length: "length (sortByY g) = length g"
  using sortByY_mset[of g] by (metis size_mset)

lemma sortByY_two: "sortByY [a, b] = (if y b \<le> y a then [a, b] else [b, a])"
  by (simp add: sortByY_def sort_by_def)

lemma keys_pushGroup:
  "map fst (pushGroup m gs)
     = (if keyOf m \<in> set (map fst gs) then map fst gs else map fst gs @ [keyOf m])"
  by (induction gs) force+

lemma map_of_pushGroup:
  "map_of (pushGroup m gs) k
     = (if k = keyOf m then Some ((case map_of gs k of None \<Rightarrow> [] | Some l \<Rightarrow> l) @ [m])
        else map_of gs k)"
  by (induction gs) auto

lemma filter_drop_key:
  "k \<in> K \<Longrightarrow> filter (\<lambda>j. j \<notin> K) (filter (\<lambda>j. j \<noteq> k) L) = filter (\<lambda>j. j \<notin> K) L"
  by (induction L) auto

lemma filter_add_key:
  "filter (\<lambda>j. j \<notin> insert k K) L = filter (\<lambda>j. j \<notin> K) (filter (\<lambda>j. j \<noteq> k) L)"
  by (induction L) auto

lemma keys_foldl_pushGroup:
  "map fst (foldl (\<lambda>gs m. pushGroup m gs) gs ms)
     = map fst gs @ filter (\<lambda>k. k \<notin> set (map fst gs)) (firstKeys (map keyOf ms))"
proof (induction ms arbitrary: gs)
  case Nil
  show ?case by simp
next
  case (Cons m ms)
  let ?K = "set (map fst gs)"
  let ?L = "firstKeys (map keyOf ms)"
  have step: "map fst (foldl (\<lambda>gs m. pushGroup m gs) gs (m # ms))
          = map fst (pushGroup m gs) @ filter (\<lambda>k. k \<notin> set (map fst (pushGroup m gs))) ?L"
    using Cons.IH[of "pushGroup m gs"] by simp
  show ?case
  proof (cases "keyOf m \<in> ?K")
    case True
    then have "map fst (pushGroup m gs) = map fst gs" by (simp add: keys_pushGroup del: set_map)
    with step filter_drop_key[OF True, of ?L] True show ?thesis
      by (simp del: set_map filter_filter)
  next
    case False
    then have k: "map fst (pushGroup m gs) = map fst gs @ [keyOf m]"
      by (simp add: keys_pushGroup del: set_map)
    have "set (map fst gs @ [keyOf m]) = insert (keyOf m) ?K" by simp
    with step k filter_add_key[of "keyOf m" ?K ?L] False show ?thesis
      by (simp del: set_map filter_filter set_append)
  qed
qed

lemma map_of_foldl_pushGroup:
  "map_of (foldl (\<lambda>gs m. pushGroup m gs) gs ms) k
     = (if filter (\<lambda>m. keyOf m = k) ms = [] then map_of gs k
        else Some ((case map_of gs k of None \<Rightarrow> [] | Some l \<Rightarrow> l) @ filter (\<lambda>m. keyOf m = k) ms))"
  by (induction ms arbitrary: gs) (auto simp: map_of_pushGroup)

lemma distinct_firstKeys: "distinct (firstKeys ks)"
  by (induction ks) auto

lemma set_firstKeys: "set (firstKeys ks) = set ks"
  by (induction ks) auto

lemma keys_byDayAndPeriod: "map fst (byDayAndPeriod ms) = firstKeys (map keyOf ms)"
  by (simp add: byDayAndPeriod_def keys_foldl_pushGroup)

lemma map_of_byDayAndPeriod:
  "map_of (byDayAndPeriod ms) k
     = (if filter (\<lambda>m. keyOf m = k) ms = [] then None else Some (filter (\<lambda>m. keyOf m = k) ms))"
  by (simp add: byDayAndPeriod_def map_of_foldl_pushGroup)

lemma alist_by_keys:
  "distinct (map fst gs) \<Longrightarrow> map (\<lambda>k. (k, the (map_of gs k))) (map fst gs) = gs"
proof (induction gs)
  case Nil
  show ?case by simp
next
  case (Cons g gs)
  have "map (\<lambda>k. (k, the (map_of (g # gs) k))) (map fst gs)
          = map (\<lambda>k. (k, the (map_of gs k))) (map fst gs)"
  proof (rule map_cong)
    fix k assume "k \<in> set (map fst gs)"
    moreover have "fst g \<notin> set (map fst gs)" using Cons.prems by simp
    ultimately have "k \<noteq> fst g" by blast
    then show "(k, the (map_of (g # gs) k)) = (k, the (map_of gs k))" by (cases g) simp
  qed simp
  with Cons show ?case by (cases g) simp
qed

lemma byDayAndPeriod_eq:
  "byDayAndPeriod ms
     = map (\<lambda>k. (k, filter (\<lambda>m. keyOf m = k) ms)) (firstKeys (map keyOf ms))"
proof -
  have d: "distinct (map fst (byDayAndPeriod ms))"
    by (simp add: keys_byDayAndPeriod distinct_firstKeys)
  have "byDayAndPeriod ms
          = map (\<lambda>k. (k, the (map_of (byDayAndPeriod ms) k))) (firstKeys (map keyOf ms))"
    using alist_by_keys[OF d] by (simp only: keys_byDayAndPeriod)
  also have "\<dots> = map (\<lambda>k. (k, filter (\<lambda>m. keyOf m = k) ms)) (firstKeys (map keyOf ms))"
    by (rule map_cong) (auto simp: map_of_byDayAndPeriod set_firstKeys filter_empty_conv)
  finally show ?thesis .
qed

lemma groupEntry_selected:
  assumes "0 \<le> c" and "nat c < length dates"
  shows "groupEntry dates ((c, p), g)
           = (let selected = selectPeriod p (sortByY g)
              in if rawMatch.startTime selected = [] \<or> rawMatch.endTime selected = [] then []
                 else [\<lparr> scheduleEntry.name = str ''Period '' @ showNat p,
                         scheduleEntry.startTime = parseTime (rawMatch.startTime selected) (dates ! nat c),
                         scheduleEntry.endTime = parseTime (rawMatch.endTime selected) (dates ! nat c) \<rparr>])"
  using assms by (simp add: groupEntry_def keyFields_def Let_def)

text \<open>
  The duplicate rule on a column of the grid.  For a column index from 0 on, the group of a
  key (column, period) is made of all raw occurrences with that column and period.  The
  resolver sorts it by y, largest first, keeping the order of equal y, and selects the first
  member when the period is 3, the second when the period is 4 and the group has more than
  one member, and the first otherwise; the entry of the group is built from the selected
  member.  Of two occurrences of period 4 in one column it selects the second of the sorted
  pair.
\<close>

lemma duplicate_rule:
  assumes "0 \<le> c" and "g = filter (\<lambda>m. keyOf m = (c, p)) allMatches" and "g \<noteq> []"
  shows "map_of (byDayAndPeriod allMatches) (c, p) = Some g
       \<and> sorted_wrt (\<lambda>a b. y b \<le> y a) (sortByY g) \<and> mset (sortByY g) = mset g
       \<and> keyFields (c, p) = (nat c, p)
       \<and> selectPeriod p (sortByY g)
           = (if p = 3 then sortByY g ! 0
              else if p = 4 \<and> length g > 1 then sortByY g ! 1
              else sortByY g ! 0)
       \<and> (nat c < length dates \<longrightarrow>
            groupEntry dates ((c, p), g)
              = (let selected = selectPeriod p (sortByY g)
                 in if rawMatch.startTime selected = [] \<or> rawMatch.endTime selected = [] then []
                    else [\<lparr> scheduleEntry.name = str ''Period '' @ showNat p,
                            scheduleEntry.startTime = parseTime (rawMatch.startTime selected) (dates ! nat c),
                            scheduleEntry.endTime = parseTime (rawMatch.endTime selected) (dates ! nat c) \<rparr>]))
       \<and> (p = 4 \<and> g = [a, b] \<longrightarrow>
            selectPeriod p (sortByY g) = sortByY g ! 1
            \<and> selectPeriod p (sortByY g) = (if y b \<le> y a then b else a))"
proof -
  have 1: "map_of (byDayAndPeriod allMatches) (c, p) = Some g"
    using assms(2,3) by (simp add: map_of_byDayAndPeriod)
  have 2: "keyFields (c, p) = (nat c, p)" using assms(1) by (simp add: keyFields_def)
  have 3: "selectPeriod p (sortByY g)
           = (if p = 3 then sortByY g ! 0
              else if p = 4 \<and> length g > 1 then sortByY g ! 1
              else sortByY g ! 0)"
    by (simp add: selectPeriod_def sortByY_length)
  have 4: "p = 4 \<and> g = [a, b] \<longrightarrow>
            selectPeriod p (sortByY g) = sortByY g ! 1
            \<and> selectPeriod p (sortByY g) = (if y b \<le> y a then b else a)"
    by (simp add: selectPeriod_def sortByY_two)
  from 1 2 3 4 sortByY_sorted[of g] sortByY_mset[of g] groupEntry_selected[OF assms(1), of dates p g]
  show ?thesis by blast
qed

lemma duplicate_rule_example:
  "filter (\<lambda>m. keyOf m = (2, 4))
     [\<lparr> rawMatch.periodNum = 4, rawMatch.startTime = str ''11:00'', rawMatch.endTime = str ''11:50'',
        x = 300, y = 400, rawMatch.columnIndex = 2 \<rparr>,
      \<lparr> rawMatch.periodNum = 4, rawMatch.startTime = str ''12:00'', rawMatch.endTime = str ''12:50'',
        x = 300, y = 300, rawMatch.columnIndex = 2 \<rparr>]
     = [\<lparr> rawMatch.periodNum = 4, rawMatch.startTime = str ''11:00'', rawMatch.endTime = str ''11:50'',
        x = 300, y = 400, rawMatch.columnIndex = 2 \<rparr>,
      \<lparr> rawMatch.periodNum = 4, rawMatch.startTime = str ''12:00'', rawMatch.endTime = str ''12:50'',
        x = 300, y = 300, rawMatch.columnIndex = 2 \<rparr>]
   \<and> selectPeriod 4 (sortByY
       [\<lparr> rawMatch.periodNum = 4, rawMatch.startTime = str ''11:00'', rawMatch.endTime = str ''11:50'',
        x = 300, y = 400, rawMatch.columnIndex = 2 \<rparr>,
      \<lparr> rawMatch.periodNum = 4, rawMatch.startTime = str ''12:00'', rawMatch.endTime = str ''12:50'',
        x = 300, y = 300, rawMatch.columnIndex = 2 \<rparr>])
     = \<lparr> rawMatch.periodNum = 4, rawMatch.startTime = str ''12:00'', rawMatch.endTime = str ''12:50'',
        x = 300, y = 300, rawMatch.columnIndex = 2 \<rparr>
   \<and> groupEntry [20549 * msPerDay, 20550 * msPerDay, 20551 * msPerDay, 20552 * msPerDay, 20553 * msPerDay]
       ((2, 4),
        [\<lparr> rawMatch.periodNum = 4, rawMatch.startTime = str ''11:00'', rawMatch.endTime = str ''11:50'',
           x = 300, y = 400, rawMatch.columnIndex = 2 \<rparr>,
         \<lparr> rawMatch.periodNum = 4, rawMatch.startTime = str ''12:00'', rawMatch.endTime = str ''12:50'',
           x = 300, y = 300, rawMatch.columnIndex = 2 \<rparr>])
     = [\<lparr> scheduleEntry.name = str ''Period 4'',
          scheduleEntry.startTime = 20551 * msPerDay + 12 * msPerHour,
          scheduleEntry.endTime = 20551 * msPerDay + 12 * msPerHour + 50 * msPerMinute \<rparr>]"
proof -
  let ?a = "\<lparr> rawMatch.periodNum = 4, rawMatch.startTime = str ''11:00'', rawMatch.endTime = str ''11:50'',
        x = 300, y = 400, rawMatch.columnIndex = 2 \<rparr>"
  let ?b = "\<lparr> rawMatch.periodNum = 4, rawMatch.startTime = str ''12:00'', rawMatch.endTime = str ''12:50'',
        x = 300, y = 300, rawMatch.columnIndex = 2 \<rparr>"
  let ?dates = "[20549 * msPerDay, 20550 * msPerDay, 20551 * msPerDay, 20552 * msPerDay, 20553 * msPerDay]"
  have f: "[?a, ?b] = filter (\<lambda>m. keyOf m = (2, 4)) [?a, ?b]" by (simp add: keyOf_def)
  have t: "parseTime (str ''12:00'') (20551 * msPerDay) = 20551 * msPerDay + 12 * msPerHour"
    "parseTime (str ''12:50'') (20551 * msPerDay) = 20551 * msPerDay + 12 * msPerHour + 50 * msPerMinute"
    by (simp_all add: parseTime_def Number_def str_def setHours_def msPerDay_def)
  have n: "str ''Period '' @ showNat 4 = str ''Period 4''" by (simp add: showNat.simps str_def)
  have e: "str ''12:00'' \<noteq> []" "str ''12:50'' \<noteq> []" by (simp_all add: str_def)
  have dr: "map_of (byDayAndPeriod [?a, ?b]) (2, 4) = Some [?a, ?b]
       \<and> sorted_wrt (\<lambda>a b. y b \<le> y a) (sortByY [?a, ?b]) \<and> mset (sortByY [?a, ?b]) = mset [?a, ?b]
       \<and> keyFields (2, 4) = (nat 2, 4)
       \<and> selectPeriod 4 (sortByY [?a, ?b])
           = (if (4::nat) = 3 then sortByY [?a, ?b] ! 0
              else if (4::nat) = 4 \<and> length [?a, ?b] > 1 then sortByY [?a, ?b] ! 1
              else sortByY [?a, ?b] ! 0)
       \<and> (nat 2 < length ?dates \<longrightarrow>
            groupEntry ?dates ((2, 4), [?a, ?b])
              = (let selected = selectPeriod 4 (sortByY [?a, ?b])
                 in if rawMatch.startTime selected = [] \<or> rawMatch.endTime selected = [] then []
                    else [\<lparr> scheduleEntry.name = str ''Period '' @ showNat 4,
                            scheduleEntry.startTime = parseTime (rawMatch.startTime selected) (?dates ! nat 2),
                            scheduleEntry.endTime = parseTime (rawMatch.endTime selected) (?dates ! nat 2) \<rparr>]))
       \<and> ((4::nat) = 4 \<and> [?a, ?b] = [?a, ?b] \<longrightarrow>
            selectPeriod 4 (sortByY [?a, ?b]) = sortByY [?a, ?b] ! 1
            \<and> selectPeriod 4 (sortByY [?a, ?b]) = (if y ?b \<le> y ?a then ?b else ?a))"
    by (rule duplicate_rule[of 2 "[?a, ?b]" 4 "[?a, ?b]" ?dates ?a ?b, OF _ f]) simp_all
  from dr have "selectPeriod 4 (sortByY [?a, ?b]) = (if y ?b \<le> y ?a then ?b else ?a)" by blast
  then have sel: "selectPeriod 4 (sortByY [?a, ?b]) = ?b" by simp
  have "nat 2 < length ?dates" by simp
  with dr have "groupEntry ?dates ((2, 4), [?a, ?b])
              = (let selected = selectPeriod 4 (sortByY [?a, ?b])
                 in if rawMatch.startTime selected = [] \<or> rawMatch.endTime selected = [] then []
                    else [\<lparr> scheduleEntry.name = str ''Period '' @ showNat 4,
                            scheduleEntry.startTime = parseTime (rawMatch.startTime selected) (?dates ! nat 2),
                            scheduleEntry.endTime = parseTime (rawMatch.endTime selected) (?dates ! nat 2) \<rparr>])"
    by blast
  then have "groupEntry ?dates ((2, 4), [?a, ?b])
           = [\<lparr> scheduleEntry.name = str ''Period 4'',
          scheduleEntry.startTime = 20551 * msPerDay + 12 * msPerHour,
          scheduleEntry.endTime = 20551 * msPerDay + 12 * msPerHour + 50 * msPerMinute \<rparr>]"
    unfolding sel Let_def using t n e by simp
  from this f[symmetric] sel show ?thesis by (intro conjI)
qed



lemma assembleEntries_eq:
  "assembleEntries ms dates
     = concat (map (\<lambda>k. groupEntry dates (k, filter (\<lambda>m. keyOf m = k) ms))
                 (firstKeys (map keyOf ms)))"
  by (simp add: assembleEntries_def byDayAndPeriod_eq comp_def)

lemma groupEntry_length: "length (groupEntry dates g) \<le> 1"
  by (simp add: groupEntry_def Let_def split: prod.split)

lemma savePeriodsToDatabase_sorted:
  "sorted_wrt (\<lambda>a b. scheduleEntry.startTime a \<le> scheduleEntry.startTime b)
     (savePeriodsToDatabase ms dates)"
  unfolding savePeriodsToDatabase_def by (rule sorted_sort_by) auto

lemma filter_insort_by:
  fixes f :: "'a \<Rightarrow> int"
  shows "filter (\<lambda>e. f e = k) (insort_by (\<lambda>a b. f a \<le> f b) a xs)
           = (if f a = k then a # filter (\<lambda>e. f e = k) xs else filter (\<lambda>e. f e = k) xs)"
  by (induction xs) auto

lemma filter_sort_by:
  fixes f :: "'a \<Rightarrow> int"
  shows "filter (\<lambda>e. f e = k) (sort_by (\<lambda>a b. f a \<le> f b) xs) = filter (\<lambda>e. f e = k) xs"
  by (induction xs) (simp_all add: sort_by_def filter_insort_by)

lemma sort_by_sorted: "sorted_wrt le xs \<Longrightarrow> sort_by le xs = xs"
proof (induction xs)
  case Nil
  then show ?case by (simp add: sort_by_def)
next
  case (Cons a xs)
  then have "sort_by le xs = xs" by simp
  then have "sort_by le (a # xs) = insort_by le a xs" by (simp add: sort_by_def)
  also have "\<dots> = a # xs" using Cons.prems by (cases xs) simp_all
  finally show ?case .
qed

lemma period_names:
  "str ''Period '' @ showNat 4 = str ''Period 4''" "str ''Period '' @ showNat 5 = str ''Period 5''"
  "str ''Period '' @ showNat 1 = str ''Period 1''"
  by (simp_all add: showNat.simps str_def)

lemma some_times:
  "parseTime (str ''8:00'') D = setHours D 8 0" "parseTime (str ''8:50'') D = setHours D 8 50"
  "parseTime (str ''11:30'') D = setHours D 11 30" "parseTime (str ''12:20'') D = setHours D 12 20"
  "parseTime (str ''12:00'') D = setHours D 12 0" "parseTime (str ''12:50'') D = setHours D 12 50"
  "str ''8:00'' \<noteq> []" "str ''8:50'' \<noteq> []" "str ''11:30'' \<noteq> []" "str ''12:20'' \<noteq> []"
  "str ''12:00'' \<noteq> []" "str ''12:50'' \<noteq> []"
  by (simp_all add: parseTime_def Number_def str_def)

text \<open>
  C9, as stated, fails: the entries are sorted by start instant inside savePeriodsToDatabase
  itself, before \<open>insertMany\<close>, and the sort changes their order.  In the column of Monday,
  from the top of the page, stand period 4 (11:00), period 5 (11:30) and period 4 again
  (12:00).  The loop over the groups pushes the entry of period 4, with the times of its
  second occurrence, and then the entry of period 5; the list handed to \<open>insertMany\<close> has
  period 5 first.
\<close>

theorem inserted_in_order_of_start:
  "assembleEntries
     [\<lparr> rawMatch.periodNum = 4, rawMatch.startTime = str ''11:00'', rawMatch.endTime = str ''11:50'',
        x = 100, y = 450, rawMatch.columnIndex = 0 \<rparr>,
      \<lparr> rawMatch.periodNum = 5, rawMatch.startTime = str ''11:30'', rawMatch.endTime = str ''12:20'',
        x = 100, y = 400, rawMatch.columnIndex = 0 \<rparr>,
      \<lparr> rawMatch.periodNum = 4, rawMatch.startTime = str ''12:00'', rawMatch.endTime = str ''12:50'',
        x = 100, y = 350, rawMatch.columnIndex = 0 \<rparr>]
     [20549 * msPerDay, 20550 * msPerDay, 20551 * msPerDay, 20552 * msPerDay, 20553 * msPerDay]
     = [\<lparr> scheduleEntry.name = str ''Period 4'',
          scheduleEntry.startTime = 20549 * msPerDay + 12 * msPerHour,
          scheduleEntry.endTime = 20549 * msPerDay + 12 * msPerHour + 50 * msPerMinute \<rparr>,
        \<lparr> scheduleEntry.name = str ''Period 5'',
          scheduleEntry.startTime = 20549 * msPerDay + 11 * msPerHour + 30 * msPerMinute,
          scheduleEntry.endTime = 20549 * msPerDay + 12 * msPerHour + 20 * msPerMinute \<rparr>]
   \<and> savePeriodsToDatabase
     [\<lparr> rawMatch.periodNum = 4, rawMatch.startTime = str ''11:00'', rawMatch.endTime = str ''11:50'',
        x = 100, y = 450, rawMatch.columnIndex = 0 \<rparr>,
      \<lparr> rawMatch.periodNum = 5, rawMatch.startTime = str ''11:30'', rawMatch.endTime = str ''12:20'',
        x = 100, y = 400, rawMatch.columnIndex = 0 \<rparr>,
      \<lparr> rawMatch.periodNum = 4, rawMatch.startTime = str ''12:00'', rawMatch.endTime = str ''12:50'',
        x = 100, y = 350, rawMatch.columnIndex = 0 \<rparr>]
     [20549 * msPerDay, 20550 * msPerDay, 20551 * msPerDay, 20552 * msPerDay, 20553 * msPerDay]
     = [\<lparr> scheduleEntry.name = str ''Period 5'',
          scheduleEntry.startTime = 20549 * msPerDay + 11 * msPerHour + 30 * msPerMinute,
          scheduleEntry.endTime = 20549 * msPerDay + 12 * msPerHour + 20 * msPerMinute \<rparr>,
        \<lparr> scheduleEntry.name = str ''Period 4'',
          scheduleEntry.startTime = 20549 * msPerDay + 12 * msPerHour,
          scheduleEntry.endTime = 20549 * msPerDay + 12 * msPerHour + 50 * msPerMinute \<rparr>]"
proof -
  let ?a = "\<lparr> rawMatch.periodNum = 4, rawMatch.startTime = str ''11:00'', rawMatch.endTime = str ''11:50'',
        x = 100, y = 450, rawMatch.columnIndex = 0 \<rparr>"
  let ?b = "\<lparr> rawMatch.periodNum = 5, rawMatch.startTime = str ''11:30'', rawMatch.endTime = str ''12:20'',
        x = 100, y = 400, rawMatch.columnIndex = 0 \<rparr>"
  let ?c = "\<lparr> rawMatch.periodNum = 4, rawMatch.startTime = str ''12:00'', rawMatch.endTime = str ''12:50'',
        x = 100, y = 350, rawMatch.columnIndex = 0 \<rparr>"
  let ?dates = "[20549 * msPerDay, 20550 * msPerDay, 20551 * msPerDay, 20552 * msPerDay, 20553 * msPerDay]"
  have g4: "groupEntry ?dates ((0, 4), [?a, ?c])
      = [\<lparr> scheduleEntry.name = str ''Period 4'',
          scheduleEntry.startTime = 20549 * msPerDay + 12 * msPerHour,
          scheduleEntry.endTime = 20549 * msPerDay + 12 * msPerHour + 50 * msPerMinute \<rparr>]"
    using some_times period_names
    by (simp add: groupEntry_def keyFields_def selectPeriod_def sortByY_two
          setHours_def msPerDay_def)
  have g5: "groupEntry ?dates ((0, 5), [?b])
      = [\<lparr> scheduleEntry.name = str ''Period 5'',
          scheduleEntry.startTime = 20549 * msPerDay + 11 * msPerHour + 30 * msPerMinute,
          scheduleEntry.endTime = 20549 * msPerDay + 12 * msPerHour + 20 * msPerMinute \<rparr>]"
    using some_times period_names
    by (simp add: groupEntry_def keyFields_def selectPeriod_def sortByY_def sort_by_def
          setHours_def msPerDay_def)
  have asm: "assembleEntries [?a, ?b, ?c] ?dates
     = [\<lparr> scheduleEntry.name = str ''Period 4'',
          scheduleEntry.startTime = 20549 * msPerDay + 12 * msPerHour,
          scheduleEntry.endTime = 20549 * msPerDay + 12 * msPerHour + 50 * msPerMinute \<rparr>,
        \<lparr> scheduleEntry.name = str ''Period 5'',
          scheduleEntry.startTime = 20549 * msPerDay + 11 * msPerHour + 30 * msPerMinute,
          scheduleEntry.endTime = 20549 * msPerDay + 12 * msPerHour + 20 * msPerMinute \<rparr>]"
    unfolding assembleEntries_eq using g4 g5 by (simp add: keyOf_def)
  have "savePeriodsToDatabase [?a, ?b, ?c] ?dates
     = [\<lparr> scheduleEntry.name = str ''Period 5'',
          scheduleEntry.startTime = 20549 * msPerDay + 11 * msPerHour + 30 * msPerMinute,
          scheduleEntry.endTime = 20549 * msPerDay + 12 * msPerHour + 20 * msPerMinute \<rparr>,
        \<lparr> scheduleEntry.name = str ''Period 4'',
          scheduleEntry.startTime = 20549 * msPerDay + 12 * msPerHour,
          scheduleEntry.endTime = 20549 * msPerDay + 12 * msPerHour + 50 * msPerMinute \<rparr>]"
    unfolding savePeriodsToDatabase_def asm
    by (simp add: sort_by_def msPerDay_def msPerHour_def msPerMinute_def)
  with asm show ?thesis by (intro conjI)
qed

text \<open>
  C9, amended.  The loop of savePeriodsToDatabase over the groups pushes at most one entry
  for each group, in the order in which the keys of the groups occur first among the
  occurrences, and removes none.  savePeriodsToDatabase itself then sorts the entries by
  start instant, before it hands them to \<open>insertMany\<close>: the inserted list is in ascending
  order of start, it has the same entries as the list of the loop, each as often, entries
  with the same start keep the order the loop gave them, and a list that the loop left in
  ascending order of start is inserted as it is.
\<close>

theorem entries_sorted_by_start_before_insert:
  "assembleEntries ms dates
     = concat (map (\<lambda>k. groupEntry dates (k, filter (\<lambda>m. keyOf m = k) ms))
                 (firstKeys (map keyOf ms)))
   \<and> length (groupEntry dates g) \<le> 1
   \<and> sorted_wrt (\<lambda>a b. scheduleEntry.startTime a \<le> scheduleEntry.startTime b)
         (savePeriodsToDatabase ms dates)
   \<and> mset (savePeriodsToDatabase ms dates) = mset (assembleEntries ms dates)
   \<and> filter (\<lambda>e. scheduleEntry.startTime e = t) (savePeriodsToDatabase ms dates)
       = filter (\<lambda>e. scheduleEntry.startTime e = t) (assembleEntries ms dates)
   \<and> (sorted_wrt (\<lambda>a b. scheduleEntry.startTime a \<le> scheduleEntry.startTime b)
         (assembleEntries ms dates)
        \<longrightarrow> savePeriodsToDatabase ms dates = assembleEntries ms dates)"
proof -
  have 4: "mset (savePeriodsToDatabase ms dates) = mset (assembleEntries ms dates)"
    by (simp add: savePeriodsToDatabase_def mset_sort_by)
  have 5: "filter (\<lambda>e. scheduleEntry.startTime e = t) (savePeriodsToDatabase ms dates)
       = filter (\<lambda>e. scheduleEntry.startTime e = t) (assembleEntries ms dates)"
    unfolding savePeriodsToDatabase_def by (rule filter_sort_by)
  have 6: "sorted_wrt (\<lambda>a b. scheduleEntry.startTime a \<le> scheduleEntry.startTime b)
         (assembleEntries ms dates)
        \<longrightarrow> savePeriodsToDatabase ms dates = assembleEntries ms dates"
    unfolding savePeriodsToDatabase_def by (simp add: sort_by_sorted)
  from assembleEntries_eq[of ms dates] groupEntry_length[of dates g]
    savePeriodsToDatabase_sorted[of ms dates] 4 5 6
  show ?thesis by (intro conjI)
qed

theorem entries_sorted_by_start_before_insert_witness:
  "sorted_wrt (\<lambda>a b. scheduleEntry.startTime a \<le> scheduleEntry.startTime b)
     (assembleEntries
       [\<lparr> rawMatch.periodNum = 1, rawMatch.startTime = str ''8:00'', rawMatch.endTime = str ''8:50'',
          x = 100, y = 500, rawMatch.columnIndex = 0 \<rparr>,
        \<lparr> rawMatch.periodNum = 1, rawMatch.startTime = str ''8:00'', rawMatch.endTime = str ''8:50'',
          x = 200, y = 500, rawMatch.columnIndex = 1 \<rparr>]
       [20549 * msPerDay, 20550 * msPerDay])
   \<and> savePeriodsToDatabase
     [\<lparr> rawMatch.periodNum = 1, rawMatch.startTime = str ''8:00'', rawMatch.endTime = str ''8:50'',
        x = 100, y = 500, rawMatch.columnIndex = 0 \<rparr>,
      \<lparr> rawMatch.periodNum = 1, rawMatch.startTime = str ''8:00'', rawMatch.endTime = str ''8:50'',
        x = 200, y = 500, rawMatch.columnIndex = 1 \<rparr>]
     [20549 * msPerDay, 20550 * msPerDay]
     = [\<lparr> scheduleEntry.name = str ''Period 1'',
          scheduleEntry.startTime = 20549 * msPerDay + 8 * msPerHour,
          scheduleEntry.endTime = 20549 * msPerDay + 8 * msPerHour + 50 * msPerMinute \<rparr>,
        \<lparr> scheduleEntry.name = str ''Period 1'',
          scheduleEntry.startTime = 20550 * msPerDay + 8 * msPerHour,
          scheduleEntry.endTime = 20550 * msPerDay + 8 * msPerHour + 50 * msPerMinute \<rparr>]"
proof -
  let ?a = "\<lparr> rawMatch.periodNum = 1, rawMatch.startTime = str ''8:00'', rawMatch.endTime = str ''8:50'',
        x = 100, y = 500, rawMatch.columnIndex = 0 \<rparr>"
  let ?b = "\<lparr> rawMatch.periodNum = 1, rawMatch.startTime = str ''8:00'', rawMatch.endTime = str ''8:50'',
        x = 200, y = 500, rawMatch.columnIndex = 1 \<rparr>"
  let ?dates = "[20549 * msPerDay, 20550 * msPerDay]"
  let ?out = "[\<lparr> scheduleEntry.name = str ''Period 1'',
          scheduleEntry.startTime = 20549 * msPerDay + 8 * msPerHour,
          scheduleEntry.endTime = 20549 * msPerDay + 8 * msPerHour + 50 * msPerMinute \<rparr>,
        \<lparr> scheduleEntry.name = str ''Period 1'',
          scheduleEntry.startTime = 20550 * msPerDay + 8 * msPerHour,
          scheduleEntry.endTime = 20550 * msPerDay + 8 * msPerHour + 50 * msPerMinute \<rparr>]"
  have ga: "groupEntry ?dates ((0, 1), [?a])
      = [\<lparr> scheduleEntry.name = str ''Period 1'',
          scheduleEntry.startTime = 20549 * msPerDay + 8 * msPerHour,
          scheduleEntry.endTime = 20549 * msPerDay + 8 * msPerHour + 50 * msPerMinute \<rparr>]"
    using some_times period_names
    by (simp add: groupEntry_def keyFields_def selectPeriod_def sortByY_def sort_by_def
          setHours_def msPerDay_def)
  have gb: "groupEntry ?dates ((1, 1), [?b])
      = [\<lparr> scheduleEntry.name = str ''Period 1'',
          scheduleEntry.startTime = 20550 * msPerDay + 8 * msPerHour,
          scheduleEntry.endTime = 20550 * msPerDay + 8 * msPerHour + 50 * msPerMinute \<rparr>]"
    using some_times period_names
    by (simp add: groupEntry_def keyFields_def selectPeriod_def sortByY_def sort_by_def
          setHours_def msPerDay_def)
  note th = entries_sorted_by_start_before_insert[of "[?a, ?b]" ?dates]
  from th have "assembleEntries [?a, ?b] ?dates
     = concat (map (\<lambda>k. groupEntry ?dates (k, filter (\<lambda>m. keyOf m = k) [?a, ?b]))
                 (firstKeys (map keyOf [?a, ?b])))"
    by blast
  then have asm: "assembleEntries [?a, ?b] ?dates = ?out"
    using ga gb by (simp add: keyOf_def)
  have so: "sorted_wrt (\<lambda>a b. scheduleEntry.startTime a \<le> scheduleEntry.startTime b) ?out"
    by (simp add: msPerDay_def msPerHour_def)
  from th have "sorted_wrt (\<lambda>a b. scheduleEntry.startTime a \<le> scheduleEntry.startTime b)
         (assembleEntries [?a, ?b] ?dates)
        \<longrightarrow> savePeriodsToDatabase [?a, ?b] ?dates = assembleEntries [?a, ?b] ?dates"
    by blast
  then have "savePeriodsToDatabase [?a, ?b] ?dates = ?out" unfolding asm using so by blast
  with so show ?thesis unfolding asm by (intro conjI)
qed


























lemma sort_by_single: "sort_by le [a] = [a]"
  by (simp add: sort_by_def)





lemma map_of_mapSet: "map_of (mapSet k v kvs) k' = (if k' = k then Some v else map_of kvs k')"
  by (induction kvs) auto

lemma scanStep_assigned:
  assumes days: "periodDays text (periodMatch.periodNum entry) \<noteq> []"
    and cur: "cur = (if getOr0 (nextDayIndex st) (periodMatch.periodNum entry)
                          \<ge> length (periodDays text (periodMatch.periodNum entry))
                     then 0 else getOr0 (nextDayIndex st) (periodMatch.periodNum entry))"
    and day: "day = periodDays text (periodMatch.periodNum entry) ! cur"
    and ex: "map_of (result st) (periodMatch.periodNum entry, day) = Some existing"
  shows "result (scanStep text st entry)
           = (if (periodMatch.periodNum entry = 3
                  \<and> lastIndexOf (take (periodMatch.index entry) text) (str ''B Lunch'')
                      > lastIndexOf (take (periodMatch.index entry) text)
                          (str ''Period '' @ showNat 3 @ [10] @ ParsedPeriod.startTime existing))
                \<or> (periodMatch.periodNum entry = 4
                  \<and> lastIndexOf (take (periodMatch.index entry) text) (str ''A Lunch'')
                      > lastIndexOf (take (periodMatch.index entry) text)
                          (str ''Period '' @ showNat 4 @ [10] @ ParsedPeriod.startTime existing))
              then mapSet (periodMatch.periodNum entry, day)
                     \<lparr> ParsedPeriod.name = str ''Period '' @ showNat (periodMatch.periodNum entry),
                       ParsedPeriod.startTime = periodMatch.startTime entry,
                       ParsedPeriod.endTime = periodMatch.endTime entry,
                       ParsedPeriod.columnIndex = day \<rparr>
                     (result st)
              else result st)"
proof -
  let ?pn = "periodMatch.periodNum entry"
  let ?days = "periodDays text ?pn"
  let ?ndi = "if getOr0 (nextDayIndex st) ?pn \<ge> length ?days
              then (nextDayIndex st)(?pn \<mapsto> 0) else nextDayIndex st"
  have c: "getOr0 ?ndi ?pn = cur" unfolding cur by (simp add: getOr0_def)
  have lt: "cur < length ?days" using days unfolding cur by simp
  show ?thesis
    unfolding scanStep_def Let_def c
    using lt ex[unfolded day] day
    by (auto simp: isAfterLunch_def)
qed

text \<open>
  C2.  The slot of a match is the pair of its period and the day its cursor points to.  When
  the slot is already assigned, the new occurrence replaces the existing one if and only if
  its period is 3 and the last "B Lunch" before the match starts after the last place before
  the match where the text "Period 3", line feed, start time of the existing occurrence
  starts (-1 when there is no such place), or its period is 4 and the same holds of
  "A Lunch" and "Period 4"; every other slot is left as it is.
\<close>

theorem lunch_tie_break:
  assumes "periodDays text (periodMatch.periodNum entry) \<noteq> []"
    and "cur = (if getOr0 (nextDayIndex st) (periodMatch.periodNum entry)
                          \<ge> length (periodDays text (periodMatch.periodNum entry))
                     then 0 else getOr0 (nextDayIndex st) (periodMatch.periodNum entry))"
    and "day = periodDays text (periodMatch.periodNum entry) ! cur"
    and "map_of (result st) (periodMatch.periodNum entry, day) = Some existing"
  shows "map_of (result (scanStep text st entry)) (periodMatch.periodNum entry, day)
           = Some (if (periodMatch.periodNum entry = 3
                       \<and> lastIndexOf (take (periodMatch.index entry) text) (str ''B Lunch'')
                           > lastIndexOf (take (periodMatch.index entry) text)
                               (str ''Period '' @ showNat 3 @ [10] @ ParsedPeriod.startTime existing))
                     \<or> (periodMatch.periodNum entry = 4
                       \<and> lastIndexOf (take (periodMatch.index entry) text) (str ''A Lunch'')
                           > lastIndexOf (take (periodMatch.index entry) text)
                               (str ''Period '' @ showNat 4 @ [10] @ ParsedPeriod.startTime existing))
                   then \<lparr> ParsedPeriod.name = str ''Period '' @ showNat (periodMatch.periodNum entry),
                          ParsedPeriod.startTime = periodMatch.startTime entry,
                          ParsedPeriod.endTime = periodMatch.endTime entry,
                          ParsedPeriod.columnIndex = day \<rparr>
                   else existing)
       \<and> (\<forall>k. k \<noteq> (periodMatch.periodNum entry, day)
              \<longrightarrow> map_of (result (scanStep text st entry)) k = map_of (result st) k)"
  unfolding scanStep_assigned[OF assms]
  using assms(4) by (simp add: map_of_mapSet)

lemma lunchText_matches:
  "allMatchesOf lunchText
     = [\<lparr> periodMatch.periodNum = 3, periodMatch.startTime = str ''11:00'',
          periodMatch.endTime = str ''11:50'', periodMatch.index = 11 \<rparr>,
        \<lparr> periodMatch.periodNum = 3, periodMatch.startTime = str ''12:00'',
          periodMatch.endTime = str ''12:50'', periodMatch.index = 54 \<rparr>]"
  by (simp add: allMatchesOf_def periodPattern_def plusC_def rep12_def rep2_def isDash_def str_eval)

lemma lunchText_days: "periodDays lunchText 3 = [0]"
  by (simp add: periodDays_def dayPeriods_def dayNames_def matchFirst_def headerPattern_def
        plusC_def isRosterChar_def str_eval periodSetOf_def Number_def upto_rec1 upt_rec)

lemma lunchText_markers:
  "lastIndexOf (take 54 lunchText) (str ''A Lunch'') = 46"
  "lastIndexOf (take 54 lunchText) (str ''B Lunch'') = 38"
  "lastIndexOf (take 54 lunchText) (str ''Period '' @ showNat 3 @ [10] @ str ''11:00'') = 11"
  by (simp_all add: lastIndexOf_def str_def upt_rec showNat.simps)

lemma lunchText_first:
  "scanStep lunchText initState
     \<lparr> periodMatch.periodNum = 3, periodMatch.startTime = str ''11:00'',
       periodMatch.endTime = str ''11:50'', periodMatch.index = 11 \<rparr>
   = \<lparr> nextDayIndex = (nextDayIndex initState)(3 \<mapsto> 1),
       result = [((3, 0), \<lparr> ParsedPeriod.name = str ''Period 3'', ParsedPeriod.startTime = str ''11:00'',
                    ParsedPeriod.endTime = str ''11:50'', ParsedPeriod.columnIndex = 0 \<rparr>)] \<rparr>"
proof -
  have n: "str ''Period '' @ showNat 3 = str ''Period 3''" by (simp add: showNat.simps str_def)
  show ?thesis
    unfolding scanStep_def Let_def by (simp add: lunchText_days initState_def getOr0_def n)
qed


lemma lunchText_second:
  "result (scanStep lunchText
     \<lparr> nextDayIndex = (nextDayIndex initState)(3 \<mapsto> 1),
       result = [((3, 0), \<lparr> ParsedPeriod.name = str ''Period 3'', ParsedPeriod.startTime = str ''11:00'',
          ParsedPeriod.endTime = str ''11:50'', ParsedPeriod.columnIndex = 0 \<rparr>)] \<rparr>
     \<lparr> periodMatch.periodNum = 3, periodMatch.startTime = str ''12:00'',
       periodMatch.endTime = str ''12:50'', periodMatch.index = 54 \<rparr>)
   = [((3, 0), \<lparr> ParsedPeriod.name = str ''Period 3'', ParsedPeriod.startTime = str ''12:00'',
          ParsedPeriod.endTime = str ''12:50'', ParsedPeriod.columnIndex = 0 \<rparr>)]"
proof -
  let ?st = "\<lparr> nextDayIndex = (nextDayIndex initState)(3 \<mapsto> 1),
       result = [((3, 0), \<lparr> ParsedPeriod.name = str ''Period 3'', ParsedPeriod.startTime = str ''11:00'',
          ParsedPeriod.endTime = str ''11:50'', ParsedPeriod.columnIndex = 0 \<rparr>)] \<rparr>"
  let ?e = "\<lparr> periodMatch.periodNum = 3, periodMatch.startTime = str ''12:00'',
       periodMatch.endTime = str ''12:50'', periodMatch.index = 54 \<rparr>"
  have n: "str ''Period '' @ showNat 3 = str ''Period 3''" by (simp add: showNat.simps str_def)
  have a: "periodDays lunchText (periodMatch.periodNum ?e) \<noteq> []" by (simp add: lunchText_days)
  have b: "0 = (if getOr0 (nextDayIndex ?st) (periodMatch.periodNum ?e)
                          \<ge> length (periodDays lunchText (periodMatch.periodNum ?e))
                     then 0 else getOr0 (nextDayIndex ?st) (periodMatch.periodNum ?e))"
    by (simp add: lunchText_days getOr0_def)
  have c: "0 = periodDays lunchText (periodMatch.periodNum ?e) ! 0" by (simp add: lunchText_days)
  have d: "map_of (result ?st) (periodMatch.periodNum ?e, 0)
             = Some \<lparr> ParsedPeriod.name = str ''Period 3'', ParsedPeriod.startTime = str ''11:00'',
          ParsedPeriod.endTime = str ''11:50'', ParsedPeriod.columnIndex = 0 \<rparr>"
    by simp
  show ?thesis
    unfolding scanStep_assigned[OF a b c d]
    using lunchText_markers n by simp
qed

text \<open>
  C2, as stated, fails on the example text.  Before the second occurrence of period 3 (at
  index 54) the nearest lunch marker is "A Lunch" (at 46, "B Lunch" is at 38), and yet the
  second occurrence replaces the first: the "B Lunch" lies after the first occurrence, and
  that is all the code asks.
\<close>

theorem replaced_after_A_Lunch:
  "allMatchesOf lunchText
     = [\<lparr> periodMatch.periodNum = 3, periodMatch.startTime = str ''11:00'',
       periodMatch.endTime = str ''11:50'', periodMatch.index = 11 \<rparr>,
        \<lparr> periodMatch.periodNum = 3, periodMatch.startTime = str ''12:00'',
       periodMatch.endTime = str ''12:50'', periodMatch.index = 54 \<rparr>]
   \<and> lastIndexOf (take 54 lunchText) (str ''A Lunch'') = 46
   \<and> lastIndexOf (take 54 lunchText) (str ''B Lunch'') = 38
   \<and> parsePeriodsFromText lunchText []
     = [\<lparr> ParsedPeriod.name = str ''Period 3'', ParsedPeriod.startTime = str ''12:00'',
          ParsedPeriod.endTime = str ''12:50'', ParsedPeriod.columnIndex = 0 \<rparr>]"
proof -
  have "parsePeriodsFromText lunchText []
     = [\<lparr> ParsedPeriod.name = str ''Period 3'', ParsedPeriod.startTime = str ''12:00'',
          ParsedPeriod.endTime = str ''12:50'', ParsedPeriod.columnIndex = 0 \<rparr>]"
    unfolding parsePeriodsFromText_def lunchText_matches foldl.simps lunchText_first
      lunchText_second
    by (simp add: sort_by_single)
  with lunchText_matches lunchText_markers(1,2) show ?thesis by (intro conjI)
qed

theorem lunch_tie_break_witness:
  "periodDays lunchText 3 = [0]
   \<and> map_of (result (scanStep lunchText
        \<lparr> nextDayIndex = (nextDayIndex initState)(3 \<mapsto> 1),
       result = [((3, 0), \<lparr> ParsedPeriod.name = str ''Period 3'', ParsedPeriod.startTime = str ''11:00'',
          ParsedPeriod.endTime = str ''11:50'', ParsedPeriod.columnIndex = 0 \<rparr>)] \<rparr>
        \<lparr> periodMatch.periodNum = 3, periodMatch.startTime = str ''12:00'',
       periodMatch.endTime = str ''12:50'', periodMatch.index = 54 \<rparr>)) (3, 0)
     = Some \<lparr> ParsedPeriod.name = str ''Period 3'', ParsedPeriod.startTime = str ''12:00'',
          ParsedPeriod.endTime = str ''12:50'', ParsedPeriod.columnIndex = 0 \<rparr>"
proof -
  let ?st = "\<lparr> nextDayIndex = (nextDayIndex initState)(3 \<mapsto> 1),
       result = [((3, 0), \<lparr> ParsedPeriod.name = str ''Period 3'', ParsedPeriod.startTime = str ''11:00'',
          ParsedPeriod.endTime = str ''11:50'', ParsedPeriod.columnIndex = 0 \<rparr>)] \<rparr>"
  let ?e = "\<lparr> periodMatch.periodNum = 3, periodMatch.startTime = str ''12:00'',
       periodMatch.endTime = str ''12:50'', periodMatch.index = 54 \<rparr>"
  have n: "str ''Period '' @ showNat 3 = str ''Period 3''" by (simp add: showNat.simps str_def)
  have a: "periodDays lunchText (periodMatch.periodNum ?e) \<noteq> []" by (simp add: lunchText_days)
  have b: "0 = (if getOr0 (nextDayIndex ?st) (periodMatch.periodNum ?e)
                          \<ge> length (periodDays lunchText (periodMatch.periodNum ?e))
                     then 0 else getOr0 (nextDayIndex ?st) (periodMatch.periodNum ?e))"
    by (simp add: lunchText_days getOr0_def)
  have c: "0 = periodDays lunchText (periodMatch.periodNum ?e) ! 0" by (simp add: lunchText_days)
  have d: "map_of (result ?st) (periodMatch.periodNum ?e, 0)
             = Some \<lparr> ParsedPeriod.name = str ''Period 3'', ParsedPeriod.startTime = str ''11:00'',
          ParsedPeriod.endTime = str ''11:50'', ParsedPeriod.columnIndex = 0 \<rparr>"
    by simp
  from lunch_tie_break[OF a b c d]
  have "map_of (result (scanStep lunchText ?st ?e)) (3, 0)
          = Some \<lparr> ParsedPeriod.name = str ''Period 3'', ParsedPeriod.startTime = str ''12:00'',
          ParsedPeriod.endTime = str ''12:50'', ParsedPeriod.columnIndex = 0 \<rparr>"
    using lunchText_markers n by simp
  with lunchText_days show ?thesis by (intro conjI)
qed

lemma texts_index:
  "map (\<lambda>(i, t, v). t) (execAll m skip i prev s) = map (\<lambda>(i, t, v). t) (execAll m skip j prev s)"
proof (induction s arbitrary: skip i j prev)
  case Nil
  show ?case by simp
next
  case (Cons c cs)
  show ?case
  proof (cases "0 < skip")
    case True
    then show ?thesis using Cons[of "skip - 1" "i + 1" "Some c" "j + 1"] by simp
  next
    case False
    show ?thesis
    proof (cases "m prev (c # cs)")
      case Nil
      then show ?thesis using False Cons[of 0 "i + 1" "Some c" "j + 1"] by simp
    next
      case (Cons vr rest)
      obtain v r where vr: "vr = (v, r)" by (cases vr)
      show ?thesis
        using False Cons vr
          Cons.IH[of "length (c # cs) - length r - 1" "i + 1" "Some c" "j + 1"]
        by simp
    qed
  qed
qed

lemma texts_skip:
  "map (\<lambda>(i, t, v). t) (execAll m (length a) i prev (a @ r))
     = map (\<lambda>(i, t, v). t) (execAll m 0 j (if a = [] then prev else Some (last a)) r)"
proof (induction a arbitrary: i prev)
  case Nil
  show ?case using texts_index[of m 0 i prev r j] by simp
next
  case (Cons c a)
  show ?case using Cons[of "i + 1" "Some c"] by simp
qed

lemma texts_no_match:
  assumes "\<And>c s p. c \<in> set a \<Longrightarrow> m p (c # s) = []"
  shows "map (\<lambda>(i, t, v). t) (execAll m 0 i prev (a @ r))
           = map (\<lambda>(i, t, v). t) (execAll m 0 j (if a = [] then prev else Some (last a)) r)"
  using assms
proof (induction a arbitrary: i prev)
  case Nil
  show ?case using texts_index[of m 0 i prev r j] by simp
next
  case (Cons c a)
  have "m prev (c # a @ r) = []" using Cons.prems[of c] by simp
  moreover have "\<And>c s p. c \<in> set a \<Longrightarrow> m p (c # s) = []" using Cons.prems by simp
  ultimately show ?case using Cons.IH[of "i + 1" "Some c"] by simp
qed

lemma texts_match:
  assumes "m prev (t @ r) = (v, r) # rest" and "t \<noteq> []"
  shows "map (\<lambda>(i, t, v). t) (execAll m 0 i prev (t @ r))
           = t # map (\<lambda>(i, t, v). t) (execAll m 0 j (Some (last t)) r)"
proof -
  obtain c a where t: "t = c # a" using assms(2) by (cases t) auto
  have "map (\<lambda>(i, t, v). t) (execAll m (length a) (i + 1) (Some c) (a @ r))
          = map (\<lambda>(i, t, v). t) (execAll m 0 j (if a = [] then Some c else Some (last a)) r)"
    by (rule texts_skip)
  then show ?thesis using assms(1) unfolding t by simp
qed

lemma dayPattern_nondigit: "\<not> isDigit c \<Longrightarrow> dayPattern p (c # s) = []"
  by (simp add: dayPattern_def rep12_def)

lemma dayPattern_empty: "dayPattern p [] = []"
  by (simp add: dayPattern_def rep12_def)

lemma dayPattern_day:
  assumes "list_all isDigit d" and "length d = 1 \<or> length d = 2"
    and "sfx \<in> set (map str ['''', ''st'', ''nd'', ''rd'', ''th''])"
    and "r = [] \<or> (\<exists>r'. r = 32 # r')"
  shows "\<exists>rest. dayPattern p ((d @ sfx) @ r) = ((), r) # rest"
proof -
  from assms(1,2) consider a where "d = [a]" "isDigit a" | a b where "d = [a, b]" "isDigit a" "isDigit b"
    by (cases d; cases "tl d") auto
  then show ?thesis
  proof cases
    case 1
    with assms(3,4) show ?thesis
      by (auto simp: dayPattern_def rep12_def str_def isDigit_def)
  next
    case 2
    with assms(3,4) show ?thesis
      by (auto simp: dayPattern_def rep12_def str_def isDigit_def)
  qed
qed

lemma monthPattern_digit: "isDigit c \<Longrightarrow> monthPattern p (c # s) = []"
  by (simp add: monthPattern_def monthNames_def str_def canon_def isDigit_def)

lemma monthPattern_other:
  "monthPattern p [] = []"
  "monthPattern p (32 # s) = []" "monthPattern p (45 # s) = []" "monthPattern p (116 # s) = []"
  "monthPattern p (104 # s) = []" "monthPattern p (114 # s) = []"
  "monthPattern p (115 # 116 # s) = []" "monthPattern p (110 # 100 # s) = []"
  "monthPattern p (100 # 32 # s) = []" "monthPattern p [100] = []"
  by (simp_all add: monthPattern_def monthNames_def str_def canon_def)

lemma monthPattern_head:
  assumes "M \<in> set (map str [''January'', ''February'', ''March'', ''April'', ''May'', ''June'',
             ''July'', ''August'', ''September'', ''October'', ''November'', ''December''])"
  shows "monthPattern None (M @ 32 # r) = [((), 32 # r)]"
  using assms
  by (auto simp: monthPattern_def monthNames_def boundary_def isWordChar_def isDigit_def
        str_def canon_def)

lemma month_name_facts:
  assumes "M \<in> set (map str [''January'', ''February'', ''March'', ''April'', ''May'', ''June'',
             ''July'', ''August'', ''September'', ''October'', ''November'', ''December''])"
  shows "M \<noteq> []" and "\<forall>c\<in>set M. \<not> isDigit c \<and> c \<noteq> 8211 \<and> c \<noteq> 58 \<and> c \<noteq> 45"
    and "\<not> isSpace (hd M)" and "\<exists>m. months (toLowerCase M) = Some m"
  using assms
  by (auto simp: str_def isDigit_def isSpace_def months_def monthNames_def toLowerCase_def)

lemma monthPattern_day_part:
  assumes "list_all isDigit d" and "length d = 1 \<or> length d = 2"
    and "sfx \<in> set (map str ['''', ''st'', ''nd'', ''rd'', ''th''])"
    and "r = [] \<or> (\<exists>r'. r = 32 # r')"
  shows "map (\<lambda>(i, t, v). t) (execAll monthPattern 0 i p ((d @ sfx) @ r))
           = map (\<lambda>(i, t, v). t) (execAll monthPattern 0 j (Some 32) (tl r))"
proof -
  from assms(1,2) consider a where "d = [a]" "isDigit a" | a b where "d = [a, b]" "isDigit a" "isDigit b"
    by (cases d; cases "tl d") auto
  then show ?thesis
  proof cases
    case 1
    with assms(3,4) show ?thesis
      by (auto simp: monthPattern_digit monthPattern_other str_def intro: texts_index)
  next
    case 2
    with assms(3,4) show ?thesis
      by (auto simp: monthPattern_digit monthPattern_other str_def intro: texts_index)
  qed
qed

lemma cleanName_id:
  assumes "\<forall>c\<in>set s. c \<noteq> 8211 \<and> c \<noteq> 58" and "s \<noteq> []"
    and "\<not> isSpace (hd s)" and "\<not> isSpace (last s)"
  shows "cleanName s = s"
proof -
  have m: "map (\<lambda>c. if c = 45 \<or> c = 8211 then 45 else c) s = s"
    using assms(1) by (intro map_idI) auto
  have f: "filter (\<lambda>c. c \<noteq> 58) s = s" using assms(1) by simp
  have dw: "dropWhile isSpace xs = xs" if "xs \<noteq> []" "\<not> isSpace (hd xs)" for xs
    using that by (cases xs) auto
  have a: "dropWhile isSpace s = s" using assms(2,3) by (rule dw)
  have "hd (rev s) = last s" using assms(2) by (simp add: hd_rev)
  then have b: "dropWhile isSpace (rev s) = rev s" using assms(2,4) by (intro dw) auto
  show ?thesis by (simp add: cleanName_def trim_def m f a b)
qed

lemma stripPdf_ext: "stripPdf (b @ str ''.pdf'') = b"
  by (simp add: stripPdf_def str_def canon_def)

lemma litCI_last:
  "litCI p s \<noteq> [] \<Longrightarrow> length s = length p \<Longrightarrow> p \<noteq> [] \<Longrightarrow> canon (last s) = canon (last p)"
  by (induction p s rule: litCI.induct) (auto split: if_splits)

lemma stripPdf_none:
  assumes "b \<noteq> []" and "canon (last b) \<noteq> 70"
  shows "stripPdf b = b"
proof (cases "4 \<le> length b")
  case False
  then show ?thesis by (simp add: stripPdf_def)
next
  case True
  let ?x = "drop (length b - 4) b"
  have l: "length ?x = length (str ''.pdf'')" using True by (simp add: str_def)
  have "last ?x = last b" using True assms(1) by (intro last_drop) simp
  moreover have "canon (last (str ''.pdf'')) = 70" by (simp add: str_def canon_def)
  ultimately have "litCI (str ''.pdf'') ?x = []"
    using litCI_last[of "str ''.pdf''" ?x, OF _ l] assms(2) by (auto simp: str_def)
  then show ?thesis by (simp add: stripPdf_def)
qed

lemma day_part_facts:
  assumes "list_all isDigit d" and "length d = 1 \<or> length d = 2"
    and "sfx \<in> set (map str ['''', ''st'', ''nd'', ''rd'', ''th''])"
  shows "d @ sfx \<noteq> []" and "\<not> isSpace (last (d @ sfx))" and "canon (last (d @ sfx)) \<noteq> 70"
    and "\<forall>c\<in>set (d @ sfx). c \<noteq> 8211 \<and> c \<noteq> 58"
    and "parseInt (d @ sfx) = Some (int (digitsValue 0 d))"
proof -
  from assms(1,2) consider a where "d = [a]" "isDigit a" | a b where "d = [a, b]" "isDigit a" "isDigit b"
    by (cases d; cases "tl d") auto
  then have "d @ sfx \<noteq> [] \<and> \<not> isSpace (last (d @ sfx)) \<and> canon (last (d @ sfx)) \<noteq> 70
    \<and> (\<forall>c\<in>set (d @ sfx). c \<noteq> 8211 \<and> c \<noteq> 58)
    \<and> parseInt (d @ sfx) = Some (int (digitsValue 0 d))"
  proof cases
    case 1
    with assms(3) show ?thesis
      by (auto simp: str_def isDigit_def isSpace_def canon_def parseInt_def)
  next
    case 2
    with assms(3) show ?thesis
      by (auto simp: str_def isDigit_def isSpace_def canon_def parseInt_def)
  qed
  then show "d @ sfx \<noteq> []" and "\<not> isSpace (last (d @ sfx))" and "canon (last (d @ sfx)) \<noteq> 70"
    and "\<forall>c\<in>set (d @ sfx). c \<noteq> 8211 \<and> c \<noteq> 58"
    and "parseInt (d @ sfx) = Some (int (digitsValue 0 d))"
    by blast+
qed

lemma upto_shift: "map (\<lambda>k. c + k) [a..b] = [c + a..c + b]"
proof (induction "nat (b - a + 1)" arbitrary: a)
  case 0
  then show ?case by simp
next
  case (Suc n)
  then have ab: "a \<le> b" by simp
  have n: "n = nat (b - (a + 1) + 1)" using Suc(2) by simp
  have "[a..b] = a # [a + 1..b]" using ab by (simp add: upto_rec1)
  moreover have "[c + a..c + b] = (c + a) # [c + a + 1..c + b]" using ab by (simp add: upto_rec1)
  ultimately show ?case using Suc(1)[OF n] by (simp add: add.assoc)
qed

lemma walkDates_month:
  "walkDates (newDate yr m s) (newDate yr m t) []
     = take 5 (filter (\<lambda>d. 1 \<le> getDay d \<and> getDay d \<le> 5) (map (\<lambda>k. newDate yr m k) [s..t]))"
proof -
  define c where "c = DayFromYear (yr + m div 12) + monthStart (yr + m div 12) (nat (m mod 12)) - 1"
  have md: "MakeDay yr m k = c + k" for k by (simp add: MakeDay_def c_def Let_def)
  have "map (\<lambda>k. k * msPerDay) [MakeDay yr m s..MakeDay yr m t]
          = map (\<lambda>k. k * msPerDay) (map (\<lambda>k. c + k) [s..t])"
    unfolding md upto_shift ..
  also have "\<dots> = map (\<lambda>k. newDate yr m k) [s..t]"
    by (simp add: newDate_def md comp_def)
  finally show ?thesis unfolding walkDates_days by simp
qed

lemma month_matches_of_form:
  assumes M: "M \<in> set (map str [''January'', ''February'', ''March'', ''April'', ''May'', ''June'',
             ''July'', ''August'', ''September'', ''October'', ''November'', ''December''])"
    and d1: "list_all isDigit d1" "length d1 = 1 \<or> length d1 = 2"
    and s1: "s1 \<in> set (map str ['''', ''st'', ''nd'', ''rd'', ''th''])"
    and d2: "list_all isDigit d2" "length d2 = 1 \<or> length d2 = 2"
    and s2: "s2 \<in> set (map str ['''', ''st'', ''nd'', ''rd'', ''th''])"
  shows "matchAll monthPattern (M @ 32 # (d1 @ s1) @ 32 # 45 # 32 # (d2 @ s2)) = [M]"
proof -
  let ?T = "\<lambda>p s. map (\<lambda>(i, t, v). t) (execAll monthPattern 0 0 p s)"
  let ?r1 = "32 # 45 # 32 # (d2 @ s2)"
  have nm: "monthPattern p (c # s) = []" if "c \<in> set [45, 32]" for c s p
    using that by (auto simp: monthPattern_other)
  have "?T None (M @ 32 # (d1 @ s1) @ ?r1) = M # ?T (Some (last M)) (32 # (d1 @ s1) @ ?r1)"
    using monthPattern_head[OF M] month_name_facts(1)[OF M] by (intro texts_match)
  also have "?T (Some (last M)) (32 # (d1 @ s1) @ ?r1) = ?T (Some 32) ((d1 @ s1) @ ?r1)"
    using texts_no_match[of "[32]" monthPattern 0 "Some (last M)" "(d1 @ s1) @ ?r1" 0]
    by (simp add: monthPattern_other)
  also have "\<dots> = ?T (Some 32) (tl ?r1)"
    by (rule monthPattern_day_part[OF d1 s1]) simp
  also have "\<dots> = ?T (Some 32) ((d2 @ s2) @ [])"
    using texts_no_match[of "[45, 32]" monthPattern 0 "Some 32" "(d2 @ s2) @ []" 0] nm
    by simp
  also have "\<dots> = ?T (Some 32) (tl [])"
    by (rule monthPattern_day_part[OF d2 s2]) simp
  finally show ?thesis by (simp add: matchAll_def)
qed

lemma day_matches_of_form:
  assumes M: "M \<in> set (map str [''January'', ''February'', ''March'', ''April'', ''May'', ''June'',
             ''July'', ''August'', ''September'', ''October'', ''November'', ''December''])"
    and d1: "list_all isDigit d1" "length d1 = 1 \<or> length d1 = 2"
    and s1: "s1 \<in> set (map str ['''', ''st'', ''nd'', ''rd'', ''th''])"
    and d2: "list_all isDigit d2" "length d2 = 1 \<or> length d2 = 2"
    and s2: "s2 \<in> set (map str ['''', ''st'', ''nd'', ''rd'', ''th''])"
  shows "matchAll dayPattern (M @ 32 # (d1 @ s1) @ 32 # 45 # 32 # (d2 @ s2)) = [d1 @ s1, d2 @ s2]"
proof -
  let ?T = "\<lambda>p s. map (\<lambda>(i, t, v). t) (execAll dayPattern 0 0 p s)"
  let ?r1 = "32 # 45 # 32 # (d2 @ s2)"
  have nd: "dayPattern p (c # s) = []" if "c \<in> set (M @ [32])" for c s p
    using that month_name_facts(2)[OF M] by (intro dayPattern_nondigit) (auto simp: isDigit_def)
  have nd': "dayPattern p (c # s) = []" if "c \<in> set [32, 45, 32]" for c s p
    using that by (intro dayPattern_nondigit) (auto simp: isDigit_def)
  obtain rest1 where m1: "dayPattern (Some 32) ((d1 @ s1) @ ?r1) = ((), ?r1) # rest1"
    using dayPattern_day[OF d1 s1, of ?r1 "Some 32"] by auto
  obtain rest2 where m2: "dayPattern (Some 32) ((d2 @ s2) @ []) = ((), []) # rest2"
    using dayPattern_day[OF d2 s2, of "[]" "Some 32"] by auto
  have "?T None ((M @ [32]) @ (d1 @ s1) @ ?r1) = ?T (Some 32) ((d1 @ s1) @ ?r1)"
    using texts_no_match[of "M @ [32]" dayPattern 0 None "(d1 @ s1) @ ?r1" 0, OF nd] by simp
  also have "\<dots> = (d1 @ s1) # ?T (Some (last (d1 @ s1))) ?r1"
    using m1 day_part_facts(1)[OF d1 s1] by (intro texts_match)
  also have "?T (Some (last (d1 @ s1))) ?r1 = ?T (Some 32) ((d2 @ s2) @ [])"
    using texts_no_match[of "[32, 45, 32]" dayPattern 0 "Some (last (d1 @ s1))" "(d2 @ s2) @ []" 0,
            OF nd'] by simp
  also have "\<dots> = (d2 @ s2) # ?T (Some (last (d2 @ s2))) []"
    using m2 day_part_facts(1)[OF d2 s2] by (intro texts_match)
  finally show ?thesis by (simp add: matchAll_def)
qed

lemma clean_name_of_form:
  assumes M: "M \<in> set (map str [''January'', ''February'', ''March'', ''April'', ''May'', ''June'',
             ''July'', ''August'', ''September'', ''October'', ''November'', ''December''])"
    and d1: "list_all isDigit d1" "length d1 = 1 \<or> length d1 = 2"
    and s1: "s1 \<in> set (map str ['''', ''st'', ''nd'', ''rd'', ''th''])"
    and d2: "list_all isDigit d2" "length d2 = 1 \<or> length d2 = 2"
    and s2: "s2 \<in> set (map str ['''', ''st'', ''nd'', ''rd'', ''th''])"
    and ext: "ext = [] \<or> ext = str ''.pdf''"
  shows "cleanName (stripPdf ((M @ 32 # (d1 @ s1) @ 32 # 45 # 32 # (d2 @ s2)) @ ext))
           = M @ 32 # (d1 @ s1) @ 32 # 45 # 32 # (d2 @ s2)"
proof -
  let ?b = "M @ 32 # (d1 @ s1) @ 32 # 45 # 32 # (d2 @ s2)"
  note f1 = day_part_facts[OF d1 s1] and f2 = day_part_facts[OF d2 s2]
  note fm = month_name_facts[OF M]
  have eq: "?b = (M @ 32 # (d1 @ s1) @ [32, 45, 32]) @ (d2 @ s2)" by simp
  have l: "last ?b = last (d2 @ s2)" unfolding eq by (rule last_appendR[OF f2(1)])
  have "stripPdf (?b @ ext) = ?b"
  proof (cases "ext = []")
    case True
    then show ?thesis using stripPdf_none[of ?b] f2(3) l by simp
  next
    case False
    with ext show ?thesis using stripPdf_ext[of ?b] by simp
  qed
  moreover have "cleanName ?b = ?b"
  proof (rule cleanName_id)
    show "\<forall>c\<in>set ?b. c \<noteq> 8211 \<and> c \<noteq> 58" using fm(2) f1(4) f2(4) by auto
    show "?b \<noteq> []" by simp
    show "\<not> isSpace (hd ?b)" using fm(1,3) by simp
    show "\<not> isSpace (last ?b)" using f2(2) l by simp
  qed
  ultimately show ?thesis by simp
qed

lemma parseDateRange_of_form:
  assumes M: "M \<in> set (map str [''January'', ''February'', ''March'', ''April'', ''May'', ''June'',
             ''July'', ''August'', ''September'', ''October'', ''November'', ''December''])"
    and d1: "list_all isDigit d1" "length d1 = 1 \<or> length d1 = 2"
    and s1: "s1 \<in> set (map str ['''', ''st'', ''nd'', ''rd'', ''th''])"
    and d2: "list_all isDigit d2" "length d2 = 1 \<or> length d2 = 2"
    and s2: "s2 \<in> set (map str ['''', ''st'', ''nd'', ''rd'', ''th''])"
    and ext: "ext = [] \<or> ext = str ''.pdf''"
  shows "\<exists>m. months (toLowerCase M) = Some m
           \<and> parseDateRange (M @ str '' '' @ d1 @ s1 @ str '' - '' @ d2 @ s2 @ ext)
               = (take 5 (filter (\<lambda>d. 1 \<le> getDay d \<and> getDay d \<le> 5)
                            (map (\<lambda>k. newDate (getYear m) m k)
                               [int (digitsValue 0 d1)..int (digitsValue 0 d2)])), [])"
proof -
  let ?b = "M @ 32 # (d1 @ s1) @ 32 # 45 # 32 # (d2 @ s2)"
  have name: "M @ str '' '' @ d1 @ s1 @ str '' - '' @ d2 @ s2 @ ext = ?b @ ext"
    by (simp add: str_def)
  obtain m where m: "months (toLowerCase M) = Some m"
    using month_name_facts(4)[OF M] by auto
  have c: "cleanName (stripPdf (?b @ ext)) = ?b"
    by (rule clean_name_of_form[OF M d1 s1 d2 s2 ext])
  have mm: "matchAll monthPattern (cleanName (stripPdf (?b @ ext))) = [M]"
    unfolding c by (rule month_matches_of_form[OF M d1 s1 d2 s2])
  have dm: "matchAll dayPattern (cleanName (stripPdf (?b @ ext))) = [d1 @ s1, d2 @ s2]"
    unfolding c by (rule day_matches_of_form[OF M d1 s1 d2 s2])
  have em: "months (toLowerCase (hd ([] @ [M]))) = Some m" using m by simp
  have "parseDateRange (?b @ ext)
          = (walkDates (newDate (getYear m) m (int (digitsValue 0 d1)))
                       (newDate (getYear m) m (int (digitsValue 0 d2))) [], [])"
    by (rule parseDateRange_eval[OF mm dm m em day_part_facts(5)[OF d1 s1] day_part_facts(5)[OF d2 s2]])
  then show ?thesis unfolding name walkDates_month using m by blast
qed

text \<open>
  C4, as stated, fails when the range holds more than five weekdays: the walk stops at five
  dates.  For "April 1st - 30th" the dates are 1, 2, 3, 6 and 7 April 2026; Wednesday 8 April
  is a weekday of the range that is not returned.
\<close>

theorem later_weekdays_left_out:
  "fst (parseDateRange (str ''April 1st - 30th.pdf''))
     = [newDate 2026 3 1, newDate 2026 3 2, newDate 2026 3 3, newDate 2026 3 6, newDate 2026 3 7]
   \<and> getDay (newDate 2026 3 8) = 3
   \<and> newDate 2026 3 8 \<notin> set (fst (parseDateRange (str ''April 1st - 30th.pdf'')))"
proof -
  have M: "str ''April'' \<in> set (map str [''January'', ''February'', ''March'', ''April'', ''May'',
             ''June'', ''July'', ''August'', ''September'', ''October'', ''November'', ''December''])"
    by simp
  have d: "list_all isDigit (str ''1'')" "length (str ''1'') = 1 \<or> length (str ''1'') = 2"
    "list_all isDigit (str ''30'')" "length (str ''30'') = 1 \<or> length (str ''30'') = 2"
    by (simp_all add: str_def isDigit_def)
  have s: "str ''st'' \<in> set (map str ['''', ''st'', ''nd'', ''rd'', ''th''])"
    "str ''th'' \<in> set (map str ['''', ''st'', ''nd'', ''rd'', ''th''])"
    by simp_all
  have n: "str ''April'' @ str '' '' @ str ''1'' @ str ''st'' @ str '' - '' @ str ''30'' @ str ''th''
             @ str ''.pdf'' = str ''April 1st - 30th.pdf''"
    by (simp add: str_def)
  have v: "int (digitsValue 0 (str ''1'')) = 1" "int (digitsValue 0 (str ''30'')) = 30"
    by (simp_all add: str_def)
  have y: "getYear 3 = 2026" by (simp add: getYear_def)
  have u: "[1..30] = [1, 2, 3, 4, 5, 6, 7, 8, 9, 10, 11, 12, 13, 14, 15, 16, 17, 18, 19, 20, 21,
             22, 23, 24, 25, 26, 27, 28, 29, 30::int]"
    by (simp add: upto_rec1)
  from parseDateRange_of_form[OF M d(1,2) s(1) d(3,4) s(2), of "str ''.pdf''"]
  have "parseDateRange (str ''April 1st - 30th.pdf'')
          = (take 5 (filter (\<lambda>d. 1 \<le> getDay d \<and> getDay d \<le> 5)
                            (map (\<lambda>k. newDate 2026 3 k) [1..30])), [])"
    unfolding n v using april_index y by auto
  then have "fst (parseDateRange (str ''April 1st - 30th.pdf''))
     = [newDate 2026 3 1, newDate 2026 3 2, newDate 2026 3 3, newDate 2026 3 6, newDate 2026 3 7]"
    unfolding u
    by (simp add: getDay_def newDate_def MakeDay_def DayFromYear_def monthStart_def InLeapYear_def
          msPerDay_def)
  then show ?thesis
    by (simp add: getDay_def newDate_def MakeDay_def DayFromYear_def monthStart_def InLeapYear_def
          msPerDay_def)
qed

text \<open>
  C4, amended.  For a document name "<Month> D1[suffix] - D2[suffix]", with or without the
  extension ".pdf", where <Month> is an English month name with a capital initial, D1 and D2
  are numbers of one or two digits and a suffix is st, nd, rd or th, parseDateRange returns,
  without a warning, the first five weekday dates of the days D1 to D2 of that month, in
  ascending order, and all the weekday dates of the range when they are fewer than five.
\<close>

theorem first_five_weekdays_of_range:
  assumes "M \<in> set (map str [''January'', ''February'', ''March'', ''April'', ''May'', ''June'',
             ''July'', ''August'', ''September'', ''October'', ''November'', ''December''])"
    and "list_all isDigit d1" and "length d1 = 1 \<or> length d1 = 2"
    and "s1 \<in> set (map str ['''', ''st'', ''nd'', ''rd'', ''th''])"
    and "list_all isDigit d2" and "length d2 = 1 \<or> length d2 = 2"
    and "s2 \<in> set (map str ['''', ''st'', ''nd'', ''rd'', ''th''])"
    and "ext = [] \<or> ext = str ''.pdf''"
  shows "\<exists>m. months (toLowerCase M) = Some m
           \<and> parseDateRange (M @ str '' '' @ d1 @ s1 @ str '' - '' @ d2 @ s2 @ ext)
               = (take 5 (filter (\<lambda>d. 1 \<le> getDay d \<and> getDay d \<le> 5)
                            (map (\<lambda>k. newDate (getYear m) m k)
                               [int (digitsValue 0 d1)..int (digitsValue 0 d2)])), [])"
  using assms by (rule parseDateRange_of_form)

theorem first_five_weekdays_of_range_witness:
  "str ''April'' \<in> set (map str [''January'', ''February'', ''March'', ''April'', ''May'',
             ''June'', ''July'', ''August'', ''September'', ''October'', ''November'', ''December''])
   \<and> list_all isDigit (str ''6'') \<and> list_all isDigit (str ''10'')
   \<and> str ''th'' \<in> set (map str ['''', ''st'', ''nd'', ''rd'', ''th''])
   \<and> parseDateRange (str ''April 6th - 10th'')
       = ([newDate 2026 3 6, newDate 2026 3 7, newDate 2026 3 8, newDate 2026 3 9, newDate 2026 3 10], [])"
proof -
  have M: "str ''April'' \<in> set (map str [''January'', ''February'', ''March'', ''April'', ''May'',
             ''June'', ''July'', ''August'', ''September'', ''October'', ''November'', ''December''])"
    by simp
  have d: "list_all isDigit (str ''6'')" "length (str ''6'') = 1 \<or> length (str ''6'') = 2"
    "list_all isDigit (str ''10'')" "length (str ''10'') = 1 \<or> length (str ''10'') = 2"
    by (simp_all add: str_def isDigit_def)
  have s: "str ''th'' \<in> set (map str ['''', ''st'', ''nd'', ''rd'', ''th''])" by simp
  have n: "str ''April'' @ str '' '' @ str ''6'' @ str ''th'' @ str '' - '' @ str ''10'' @ str ''th''
             @ [] = str ''April 6th - 10th''"
    by (simp add: str_def)
  have v: "int (digitsValue 0 (str ''6'')) = 6" "int (digitsValue 0 (str ''10'')) = 10"
    by (simp_all add: str_def)
  have y: "getYear 3 = 2026" by (simp add: getYear_def)
  have u: "[6..10] = [6, 7, 8, 9, 10::int]" by (simp add: upto_rec1)
  from first_five_weekdays_of_range[OF M d(1,2) s d(3,4) s, of "[]"]
  have "parseDateRange (str ''April 6th - 10th'')
          = (take 5 (filter (\<lambda>d. 1 \<le> getDay d \<and> getDay d \<le> 5)
                            (map (\<lambda>k. newDate 2026 3 k) [6..10])), [])"
    unfolding n v using april_index y by auto
  then have "parseDateRange (str ''April 6th - 10th'')
       = ([newDate 2026 3 6, newDate 2026 3 7, newDate 2026 3 8, newDate 2026 3 9, newDate 2026 3 10], [])"
    unfolding u
    by (simp add: getDay_def newDate_def MakeDay_def DayFromYear_def monthStart_def InLeapYear_def
          msPerDay_def)
  with M d(1,3) s show ?thesis by (intro conjI)
qed

lemma execAll_match_origin:
  "(i, t, v) \<in> set (execAll m skip k prev s)
   \<Longrightarrow> \<exists>p s' r rest. m p s' = (v, r) # rest \<and> t = take (length s' - length r) s'"
proof (induction s arbitrary: skip k prev)
  case Nil
  then show ?case by simp
next
  case (Cons c cs)
  show ?case
  proof (cases "0 < skip")
    case True
    with Cons.prems have "(i, t, v) \<in> set (execAll m (skip - 1) (k + 1) (Some c) cs)" by simp
    then show ?thesis by (rule Cons.IH)
  next
    case False
    show ?thesis
    proof (cases "m prev (c # cs)")
      case Nil
      with False Cons.prems have "(i, t, v) \<in> set (execAll m 0 (k + 1) (Some c) cs)" by simp
      then show ?thesis by (rule Cons.IH)
    next
      case (Cons vr rest)
      obtain v' r where vr: "vr = (v', r)" by (cases vr)
      from False Cons vr Cons.prems
      consider "(i, t, v) = (k, take (length (c # cs) - length r) (c # cs), v')"
        | "(i, t, v) \<in> set (execAll m (length (c # cs) - length r - 1) (k + 1) (Some c) cs)"
        by auto
      then show ?thesis
      proof cases
        case 1
        with Cons vr show ?thesis by blast
      next
        case 2
        then show ?thesis by (rule Cons.IH)
      qed
    qed
  qed
qed

lemma matchAll_origin:
  assumes "t \<in> set (matchAll m s)"
  shows "\<exists>p s' v r rest. m p s' = (v, r) # rest \<and> t = take (length s' - length r) s'"
proof -
  from assms obtain i v where "(i, t, v) \<in> set (execAll m 0 0 None s)"
    by (auto simp: matchAll_def)
  from execAll_match_origin[OF this] show ?thesis by blast
qed

lemma litCI_sound:
  "r \<in> set (litCI nm s)
   \<Longrightarrow> length nm \<le> length s \<and> r = drop (length nm) s \<and> map canon (take (length nm) s) = map canon nm"
  by (induction nm s rule: litCI.induct) (auto split: if_splits)

lemma lower_of_canon:
  assumes "\<forall>c\<in>set nm. 97 \<le> c \<and> c \<le> 122" and "map canon t = map canon nm"
  shows "toLowerCase t = nm"
proof -
  have "length t = length nm" using assms(2) by (rule map_eq_imp_length_eq)
  then show ?thesis using assms
  proof (induction t nm rule: list_induct2)
    case Nil
    show ?case by (simp add: toLowerCase_def)
  next
    case (Cons c t p nm)
    from Cons.prems have "canon c = canon p" and "97 \<le> p \<and> p \<le> 122" by simp_all
    then have "(if 65 \<le> c \<and> c \<le> 90 then c + 32 else c) = p"
      by (auto simp: canon_def split: if_splits)
    moreover have "toLowerCase t = nm" using Cons by simp
    ultimately show ?case by (simp add: toLowerCase_def)
  qed
qed

lemma indexOf_member: "a \<in> set xs \<Longrightarrow> \<exists>k. indexOf xs a i = Some k"
  by (induction xs arbitrary: i) auto

lemma monthNames_lower: "nm \<in> set monthNames \<Longrightarrow> \<forall>c\<in>set nm. 97 \<le> c \<and> c \<le> 122"
  by (auto simp: monthNames_def str_def)

lemma monthPattern_sound:
  assumes "monthPattern p s = (v, r) # rest"
  shows "\<exists>m. months (toLowerCase (take (length s - length r) s)) = Some m"
proof -
  have "(v, r) \<in> set (monthPattern p s)" using assms by simp
  then obtain nm where nm: "nm \<in> set monthNames" and r: "r \<in> set (litCI nm s)"
    by (auto simp: monthPattern_def split: if_splits)
  from litCI_sound[OF r] have l: "length nm \<le> length s" and d: "r = drop (length nm) s"
    and c: "map canon (take (length nm) s) = map canon nm" by simp_all
  have "length s - length r = length nm" using l d by simp
  moreover have "toLowerCase (take (length nm) s) = nm"
    using lower_of_canon[OF monthNames_lower[OF nm] c] .
  moreover have "\<exists>m. months nm = Some m"
    using indexOf_member[OF nm, of 0] by (auto simp: months_def)
  ultimately show ?thesis by simp
qed

lemma lit_length: "r \<in> set (lit p s) \<Longrightarrow> length r \<le> length s"
  by (induction p s rule: lit.induct) (auto split: if_splits)

lemma parseInt_digit_head: "isDigit c \<Longrightarrow> \<exists>n. parseInt (c # u) = Some n"
  by (auto simp: parseInt_def Let_def isDigit_def isSpace_def)

lemma dayPattern_sound:
  assumes "dayPattern p s = (v, r) # rest"
  shows "\<exists>n. parseInt (take (length s - length r) s) = Some n"
proof -
  have "(v, r) \<in> set (dayPattern p s)" using assms by simp
  then obtain r1 where r1: "r1 \<in> set (rep12 isDigit s)"
    and r: "r \<in> set (lit (str ''st'') r1) \<or> r \<in> set (lit (str ''nd'') r1)
            \<or> r \<in> set (lit (str ''rd'') r1) \<or> r \<in> set (lit (str ''th'') r1) \<or> r = r1"
    by (auto simp: dayPattern_def)
  from r1 obtain c cs where s: "s = c # cs" and c: "isDigit c" and l1: "length r1 \<le> length cs"
    by (cases s; cases "tl s") (auto simp: rep12_def split: if_splits)
  from r have "length r \<le> length r1" using lit_length by auto
  with l1 obtain k where k: "length s - length r = Suc k" using s by (cases "length s - length r") auto
  have "take (length s - length r) s = c # take k cs" unfolding k by (simp add: s)
  then show ?thesis using parseInt_digit_head[OF c] by simp
qed

lemma month_matches_in_table:
  "t \<in> set (matchAll monthPattern s) \<Longrightarrow> \<exists>m. months (toLowerCase t) = Some m"
  using matchAll_origin[of t monthPattern s] monthPattern_sound by blast

lemma day_matches_are_numbers:
  "t \<in> set (matchAll dayPattern s) \<Longrightarrow> \<exists>n. parseInt t = Some n"
  using matchAll_origin[of t dayPattern s] dayPattern_sound by blast

text \<open>
  C1, amended.  For a document name in which the patterns find a month and two day numbers,
  the start date is in the year of the first month name and the end date in the year of the
  second (of the first when there is one only), where August to December are in 2025 and
  January to July in 2026.  Every text the month pattern matches is in the table of months
  and every text the day pattern matches starts with a number, so the two dates are always
  defined.
\<close>

theorem year_of_resolved_month:
  assumes "matchAll monthPattern (cleanName (stripPdf f)) = m1 # mm"
    and "matchAll dayPattern (cleanName (stripPdf f)) = d1 # d2 # dm"
  shows "\<exists>sm em sd ed.
           months (toLowerCase m1) = Some sm \<and> months (toLowerCase (hd (mm @ [m1]))) = Some em
         \<and> parseInt d1 = Some sd \<and> parseInt d2 = Some ed
         \<and> parseDateRange f
             = (walkDates
                 (newDate (if toLowerCase m1 \<in> set (map str [''august'', ''september'', ''october'',
                               ''november'', ''december'']) then 2025 else 2026) sm sd)
                 (newDate (if toLowerCase (hd (mm @ [m1])) \<in> set (map str [''august'', ''september'',
                               ''october'', ''november'', ''december'']) then 2025 else 2026) em ed) [],
                [])"
proof -
  have "m1 \<in> set (matchAll monthPattern (cleanName (stripPdf f)))" using assms(1) by simp
  then obtain sm where sm: "months (toLowerCase m1) = Some sm"
    using month_matches_in_table by blast
  have "hd (mm @ [m1]) \<in> set (matchAll monthPattern (cleanName (stripPdf f)))"
    using assms(1) by (cases mm) simp_all
  then obtain em where em: "months (toLowerCase (hd (mm @ [m1]))) = Some em"
    using month_matches_in_table by blast
  have "d1 \<in> set (matchAll dayPattern (cleanName (stripPdf f)))"
    and "d2 \<in> set (matchAll dayPattern (cleanName (stripPdf f)))"
    using assms(2) by simp_all
  then obtain sd ed where sd: "parseInt d1 = Some sd" and ed: "parseInt d2 = Some ed"
    using day_matches_are_numbers by blast
  have "parseDateRange f
             = (walkDates
                 (newDate (if toLowerCase m1 \<in> set (map str [''august'', ''september'', ''october'',
                               ''november'', ''december'']) then 2025 else 2026) sm sd)
                 (newDate (if toLowerCase (hd (mm @ [m1])) \<in> set (map str [''august'', ''september'',
                               ''october'', ''november'', ''december'']) then 2025 else 2026) em ed) [],
                [])"
    unfolding parseDateRange_eval[OF assms sm em sd ed] getYear_of_name[OF sm] getYear_of_name[OF em]
    by (rule refl)
  with sm em sd ed show ?thesis by blast
qed

theorem year_of_resolved_month_witness:
  "matchAll monthPattern (cleanName (stripPdf (str ''April 6th - 10th.pdf''))) = [str ''April'']
   \<and> matchAll dayPattern (cleanName (stripPdf (str ''April 6th - 10th.pdf''))) = [str ''6th'', str ''10th'']
   \<and> months (toLowerCase (str ''April'')) = Some 3
   \<and> parseInt (str ''6th'') = Some 6 \<and> parseInt (str ''10th'') = Some 10
   \<and> parseDateRange (str ''April 6th - 10th.pdf'')
       = (walkDates (newDate 2026 3 6) (newDate 2026 3 10) [], [])"
proof -
  have a: "matchAll monthPattern (cleanName (stripPdf (str ''April 6th - 10th.pdf''))) = [str ''April'']"
    by (simp add: april_clean april_months)
  have b: "matchAll dayPattern (cleanName (stripPdf (str ''April 6th - 10th.pdf'')))
            = [str ''6th'', str ''10th'']"
    by (simp add: april_clean april_days)
  have l: "toLowerCase (str ''April'') \<notin> set (map str [''august'', ''september'', ''october'',
                               ''november'', ''december''])"
    by (simp add: toLowerCase_def str_def)
  from year_of_resolved_month[OF a b] obtain sm em sd ed where
    "months (toLowerCase (str ''April'')) = Some sm"
    "months (toLowerCase (hd ([] @ [str ''April'']))) = Some em"
    "parseInt (str ''6th'') = Some sd" "parseInt (str ''10th'') = Some ed"
    and p: "parseDateRange (str ''April 6th - 10th.pdf'')
             = (walkDates
                 (newDate (if toLowerCase (str ''April'') \<in> set (map str [''august'', ''september'',
                             ''october'', ''november'', ''december'']) then 2025 else 2026) sm sd)
                 (newDate (if toLowerCase (hd ([] @ [str ''April''])) \<in> set (map str [''august'',
                             ''september'', ''october'', ''november'', ''december''])
                           then 2025 else 2026) em ed) [],
                [])"
    by blast
  then have "sm = 3" "em = 3" "sd = 6" "ed = 10"
    by (simp_all add: april_index parseInt_6th parseInt_10th)
  with p l have "parseDateRange (str ''April 6th - 10th.pdf'')
       = (walkDates (newDate 2026 3 6) (newDate 2026 3 10) [], [])"
    by simp
  with a b april_index parseInt_6th parseInt_10th show ?thesis by (intro conjI)
qed

end
